theory Spec2Isabelle
  imports Complex_Main "HOL-Library.Multiset"
begin

section \<open>Slither simulation core: data model\<close>

text \<open>
  The embedding follows \<open>slitherLogic.js\<close> (the simulation core). JavaScript numbers are
  modelled as exact reals: \<open>Math.cos\<close>, \<open>Math.sin\<close> and \<open>Math.hypot\<close> are the real
  functions, and rounding is not modelled. Field names follow the source; \<open>id\<close>, \<open>x\<close>,
  \<open>y\<close> and \<open>value\<close> are written \<open>sid\<close>, \<open>px\<close>, \<open>py\<close> and \<open>pvalue\<close>.
\<close>

definition SEGMENT_SPACING :: real where "SEGMENT_SPACING = 8"
definition HEAD_RADIUS :: real where "HEAD_RADIUS = 10"
definition BODY_RADIUS :: real where "BODY_RADIUS = 8"
definition PELLET_RADIUS :: real where "PELLET_RADIUS = 6"
definition DEFAULT_SPEED :: real where "DEFAULT_SPEED = 120"
definition TURN_SPEED :: real where "TURN_SPEED = 4"
definition PELLET_VALUE :: real where "PELLET_VALUE = 1"
definition DEATH_PELLET_FRACTION :: real where "DEATH_PELLET_FRACTION = 4 / 10"
definition INITIAL_LENGTH :: nat where "INITIAL_LENGTH = 15"
definition PELLET_SPAWN_INTERVAL :: real where "PELLET_SPAWN_INTERVAL = 2"
definition ARENA_PADDING :: real where "ARENA_PADDING = 40"

record Point =
  px :: real
  py :: real

text \<open>A pellet is a point with a value; \<open>distSq\<close> reads only \<open>x\<close> and \<open>y\<close> of it.\<close>

record Pellet = Point +
  pvalue :: real

record Snake =
  sid :: string
  segments :: "Point list"
  angle :: real
  speed :: real
  turnSpeed :: real
  color :: string
  isPlayer :: bool

record Bounds =
  width :: real
  height :: real

record GameState =
  snakes :: "Snake list"
  pellets :: "Pellet list"
  bounds :: Bounds
  nextSnakeId :: nat
  nextPelletSpawn :: real

text \<open>
  The two ways a run of \<open>tick\<close> leaves the numbers of this model. Reading a property of
  \<open>undefined\<close> throws a \<open>TypeError\<close>. A target heading that is not a number makes the
  heading \<open>NaN\<close>: nothing is thrown and \<open>tick\<close> returns, but the heading and every
  coordinate of that organism in the returned state are \<open>NaN\<close>, which is no real number;
  the model stops at \<open>NotANumber\<close>.
\<close>

datatype error = TypeError | NotANumber

section \<open>Angles and distances\<close>

text \<open>
  \<open>normalizeAngle\<close> is two \<open>while\<close> loops, one after the other: the first subtracts
  \<open>2 * Math.PI\<close> while the angle is above \<open>Math.PI\<close>, the second adds it while the angle
  is below \<open>-Math.PI\<close>.
\<close>

function normalizeAngle_down :: "real \<Rightarrow> real" where
  "normalizeAngle_down a = (if a > pi then normalizeAngle_down (a - 2 * pi) else a)"
  by pat_completeness auto
termination
proof (relation "measure (\<lambda>a. nat \<lceil>(a - pi) / (2 * pi)\<rceil>)")
  show "wf (measure (\<lambda>a. nat \<lceil>(a - pi) / (2 * pi)\<rceil>))" by simp
next
  fix a :: real
  assume gt: "pi < a"
  have eq: "(a - 2 * pi - pi) / (2 * pi) = (a - pi) / (2 * pi) - 1"
    by (simp add: field_simps)
  have "0 < (a - pi) / (2 * pi)" using gt by simp
  then have pos: "0 < \<lceil>(a - pi) / (2 * pi)\<rceil>" by (simp add: less_ceiling_iff)
  have "\<lceil>(a - 2 * pi - pi) / (2 * pi)\<rceil> = \<lceil>(a - pi) / (2 * pi)\<rceil> - 1"
    by (simp only: eq ceiling_diff_one)
  with pos have "nat \<lceil>(a - 2 * pi - pi) / (2 * pi)\<rceil> < nat \<lceil>(a - pi) / (2 * pi)\<rceil>"
    by linarith
  then show "(a - 2 * pi, a) \<in> measure (\<lambda>a. nat \<lceil>(a - pi) / (2 * pi)\<rceil>)"
    by (simp only: in_measure)
qed

function normalizeAngle_up :: "real \<Rightarrow> real" where
  "normalizeAngle_up a = (if a < - pi then normalizeAngle_up (a + 2 * pi) else a)"
  by pat_completeness auto
termination
proof (relation "measure (\<lambda>a. nat \<lceil>(- pi - a) / (2 * pi)\<rceil>)")
  show "wf (measure (\<lambda>a. nat \<lceil>(- pi - a) / (2 * pi)\<rceil>))" by simp
next
  fix a :: real
  assume lt: "a < - pi"
  have eq: "(- pi - (a + 2 * pi)) / (2 * pi) = (- pi - a) / (2 * pi) - 1"
    by (simp add: field_simps)
  have "0 < (- pi - a) / (2 * pi)" using lt by simp
  then have pos: "0 < \<lceil>(- pi - a) / (2 * pi)\<rceil>" by (simp add: less_ceiling_iff)
  have "\<lceil>(- pi - (a + 2 * pi)) / (2 * pi)\<rceil> = \<lceil>(- pi - a) / (2 * pi)\<rceil> - 1"
    by (simp only: eq ceiling_diff_one)
  with pos have "nat \<lceil>(- pi - (a + 2 * pi)) / (2 * pi)\<rceil> < nat \<lceil>(- pi - a) / (2 * pi)\<rceil>"
    by linarith
  then show "(a + 2 * pi, a) \<in> measure (\<lambda>a. nat \<lceil>(- pi - a) / (2 * pi)\<rceil>)"
    by (simp only: in_measure)
qed

declare normalizeAngle_down.simps [simp del]
declare normalizeAngle_up.simps [simp del]

definition normalizeAngle :: "real \<Rightarrow> real" where
  "normalizeAngle a = normalizeAngle_up (normalizeAngle_down a)"

definition distSq :: "'a Point_scheme \<Rightarrow> 'b Point_scheme \<Rightarrow> real" where
  "distSq a b = (let dx = px b - px a; dy = py b - py a in dx * dx + dy * dy)"

text \<open>\<open>Math.hypot\<close> of two arguments.\<close>

definition hypot :: "real \<Rightarrow> real \<Rightarrow> real" where
  "hypot a b = sqrt (a * a + b * b)"

section \<open>Movement\<close>

text \<open>
  The body of the follow-the-leader loop of \<open>moveSnake\<close>: the new position of the segment
  that was at \<open>curr\<close>, given the new position \<open>prev\<close> of the segment ahead of it.
\<close>

definition followStep :: "real \<Rightarrow> Point \<Rightarrow> Point \<Rightarrow> Point" where
  "followStep ang prev cur =
     (let d = hypot (px prev - px cur) (py prev - py cur)
      in if d \<le> 1 / 1000000
         then \<lparr>px = px prev - cos ang * SEGMENT_SPACING,
               py = py prev - sin ang * SEGMENT_SPACING\<rparr>
         else \<lparr>px = px prev + ((px cur - px prev) / d) * SEGMENT_SPACING,
               py = py prev + ((py cur - py prev) / d) * SEGMENT_SPACING\<rparr>)"

text \<open>The loop over \<open>snake.segments[1..]\<close>, \<open>prev\<close> being the segment just pushed.\<close>

fun follow :: "real \<Rightarrow> Point \<Rightarrow> Point list \<Rightarrow> Point list" where
  "follow ang prev [] = []"
| "follow ang prev (cur # rest) =
     (let next = followStep ang prev cur in next # follow ang next rest)"

text \<open>
  \<open>moveSnake\<close> reads \<open>head.x\<close> of \<open>snake.segments[0]\<close>: on an empty segment array
  \<open>head\<close> is \<open>undefined\<close> and the read throws.
\<close>

definition moveSnake :: "Snake \<Rightarrow> real \<Rightarrow> real \<Rightarrow> error + Snake" where
  "moveSnake snake dt targetAngle =
     (case segments snake of
        [] \<Rightarrow> Inl TypeError
      | head # rest \<Rightarrow>
          (let diff = normalizeAngle (targetAngle - angle snake);
               ang = normalizeAngle (angle snake + diff * min 1 (turnSpeed snake * dt));
               dx = cos ang * speed snake * dt;
               dy = sin ang * speed snake * dt;
               newHead = \<lparr>px = px head + dx, py = py head + dy\<rparr>
           in Inr (snake\<lparr>segments := newHead # follow ang newHead rest, angle := ang\<rparr>)))"


text \<open>
  \<open>targetAngles\<close> is a plain object, its own number-valued properties being the map
  \<open>targetAngles\<close> of the model. The lookup \<open>targetAngles[s.id]\<close> also finds what every
  plain object inherits from \<open>Object.prototype\<close>: under these keys it yields a function
  (an object under \<open>__proto__\<close>) when the object has no own property of that name.
\<close>

definition objectPrototypeKeys :: "string list" where
  "objectPrototypeKeys =
     [''constructor'', ''__defineGetter__'', ''__defineSetter__'', ''hasOwnProperty'',
      ''__lookupGetter__'', ''__lookupSetter__'', ''isPrototypeOf'', ''propertyIsEnumerable'',
      ''toString'', ''valueOf'', ''__proto__'', ''toLocaleString'']"

text \<open>
  The number that \<open>targetAngle - angle\<close> works with, for
  \<open>target = targetAngles[s.id] ?? s.angle\<close>: an own property is the target; an inherited
  member is not nullish, so \<open>??\<close> keeps it, and as a number it is \<open>NaN\<close>; with nothing
  found the target is the snake's own angle.
\<close>

datatype jsnumber = Num real | NaN

definition targetOf :: "(string \<rightharpoonup> real) \<Rightarrow> Snake \<Rightarrow> jsnumber" where
  "targetOf targetAngles s =
     (case targetAngles (sid s) of
        Some t \<Rightarrow> Num t
      | None \<Rightarrow> if sid s \<in> set objectPrototypeKeys then NaN else Num (angle s))"

text \<open>
  The first \<open>snakes.map\<close> of \<open>tick\<close>. With a \<open>NaN\<close> target \<open>moveSnake\<close> still throws on
  an empty segment array, and otherwise returns a snake of \<open>NaN\<close>s and the map goes on: a
  later snake without segments still throws.
\<close>

fun moveAll :: "real \<Rightarrow> (string \<rightharpoonup> real) \<Rightarrow> Snake list \<Rightarrow> error + Snake list" where
  "moveAll dt targetAngles [] = Inr []"
| "moveAll dt targetAngles (s # rest) =
     (case targetOf targetAngles s of
        NaN \<Rightarrow>
          (case segments s of
             [] \<Rightarrow> Inl TypeError
           | head # others \<Rightarrow>
               (case moveAll dt targetAngles rest of
                  Inl TypeError \<Rightarrow> Inl TypeError
                | Inl NotANumber \<Rightarrow> Inl NotANumber
                | Inr rest' \<Rightarrow> Inl NotANumber))
      | Num t \<Rightarrow>
          (case moveSnake s dt t of
             Inl e \<Rightarrow> Inl e
           | Inr s' \<Rightarrow>
               (case moveAll dt targetAngles rest of
                  Inl e \<Rightarrow> Inl e
                | Inr rest' \<Rightarrow> Inr (s' # rest'))))"

section \<open>Pellet consumption and growth\<close>

definition pelletRadiusSq :: real where
  "pelletRadiusSq = (PELLET_RADIUS + HEAD_RADIUS) ^ 2"

text \<open>
  The loop \<open>for (let i = pellets.length - 1; i >= 0; i--)\<close>; the first argument is
  \<open>i + 1\<close>. A matching pellet adds its value to \<open>lengthGain\<close> and is cut out of the array.
  The model adds exactly. The source adds doubles, which is the same sum when the values
  are whole numbers (every pellet the code makes has value 1) and can differ in the last
  bit otherwise; the property that counts tail copies is stated for whole-number values.
\<close>

fun eatPellets :: "nat \<Rightarrow> Point \<Rightarrow> Pellet list \<Rightarrow> real \<Rightarrow> Pellet list \<times> real" where
  "eatPellets 0 head ps lengthGain = (ps, lengthGain)"
| "eatPellets (Suc i) head ps lengthGain =
     (if distSq head (ps ! i) < pelletRadiusSq
      then eatPellets i head (take i ps @ drop (Suc i) ps) (lengthGain + pvalue (ps ! i))
      else eatPellets i head ps lengthGain)"

text \<open>The loop \<open>for (let g = 0; g < lengthGain; g++) newSegments.push({ ...tail })\<close>.\<close>

function pushTail :: "nat \<Rightarrow> real \<Rightarrow> Point \<Rightarrow> Point list \<Rightarrow> Point list" where
  "pushTail g lengthGain tail newSegments =
     (if real g < lengthGain
      then pushTail (Suc g) lengthGain tail (newSegments @ [tail])
      else newSegments)"
  by pat_completeness auto
termination
proof (relation "measure (\<lambda>(g, lengthGain, tail, newSegments). nat \<lceil>lengthGain\<rceil> - g)")
  show "wf (measure (\<lambda>(g, lengthGain, tail, newSegments). nat \<lceil>lengthGain\<rceil> - g))"
    by simp
next
  fix g :: nat and lengthGain :: real and tail :: Point and newSegments :: "Point list"
  assume "real g < lengthGain"
  then have "int g < \<lceil>lengthGain\<rceil>" by (simp add: less_ceiling_iff)
  then have "nat \<lceil>lengthGain\<rceil> - Suc g < nat \<lceil>lengthGain\<rceil> - g" by linarith
  then show "((Suc g, lengthGain, tail, newSegments @ [tail]), (g, lengthGain, tail, newSegments))
      \<in> measure (\<lambda>(g, lengthGain, tail, newSegments). nat \<lceil>lengthGain\<rceil> - g)"
    by simp
qed

declare pushTail.simps [simp del]

text \<open>
  The body of the second \<open>snakes.map\<close>, with the shared \<open>pellets\<close> variable passed in and
  out. Every snake that reaches it has come out of \<open>moveSnake\<close>, so its segment array is
  not empty and \<open>segments[0]\<close> and \<open>segments[length - 1]\<close> are defined.
\<close>

definition eatAndGrow :: "Snake \<Rightarrow> Pellet list \<Rightarrow> Snake \<times> Pellet list" where
  "eatAndGrow snake ps =
     (let head = hd (segments snake);
          (ps', lengthGain) = eatPellets (length ps) head ps 0
      in if lengthGain \<le> 0 then (snake, ps')
         else (let tail = last (segments snake)
               in (snake\<lparr>segments := pushTail 0 lengthGain tail (segments snake)\<rparr>, ps')))"

fun consumeAll :: "Snake list \<Rightarrow> Pellet list \<Rightarrow> Snake list \<times> Pellet list" where
  "consumeAll [] ps = ([], ps)"
| "consumeAll (snake # rest) ps =
     (let (snake', ps') = eatAndGrow snake ps;
          (rest', ps'') = consumeAll rest ps'
      in (snake' # rest', ps''))"

section \<open>Collisions and death\<close>

definition hitWall :: "Point \<Rightarrow> Bounds \<Rightarrow> bool" where
  "hitWall head b =
     (px head - HEAD_RADIUS < 0 \<or> py head - HEAD_RADIUS < 0 \<or>
      px head + HEAD_RADIUS > width b \<or> py head + HEAD_RADIUS > height b)"

text \<open>The inner loop of \<open>headHitsBody\<close>, over the segments of one snake.\<close>

fun segmentsHit :: "Point \<Rightarrow> real \<Rightarrow> Point list \<Rightarrow> bool" where
  "segmentsHit head rSq [] = False"
| "segmentsHit head rSq (seg # rest) =
     (if distSq head seg < rSq then True else segmentsHit head rSq rest)"

text \<open>The outer loop of \<open>headHitsBody\<close>: snakes with the head's own id are skipped.\<close>

fun snakesHit :: "string \<Rightarrow> Point \<Rightarrow> real \<Rightarrow> Snake list \<Rightarrow> bool" where
  "snakesHit snakeId head rSq [] = False"
| "snakesHit snakeId head rSq (snake # rest) =
     (if sid snake = snakeId then snakesHit snakeId head rSq rest
      else if segmentsHit head rSq (segments snake) then True
      else snakesHit snakeId head rSq rest)"

definition headHitsBody :: "string \<Rightarrow> Point \<Rightarrow> Snake list \<Rightarrow> bool" where
  "headHitsBody snakeId head allSnakes =
     (let r = HEAD_RADIUS + BODY_RADIUS; rSq = r * r
      in snakesHit snakeId head rSq allSnakes)"

text \<open>\<open>Set.prototype.add\<close>, the set kept in insertion order as JavaScript keeps it.\<close>

definition setAdd :: "'a \<Rightarrow> 'a list \<Rightarrow> 'a list" where
  "setAdd v vs = (if v \<in> set vs then vs else vs @ [v])"

text \<open>
  The death loop of \<open>tick\<close>: every snake is tested against all snakes of the same
  array, and the ids of the dead are collected in \<open>deadIds\<close>.
\<close>

fun collectDead :: "Bounds \<Rightarrow> Snake list \<Rightarrow> Snake list \<Rightarrow> string list \<Rightarrow> string list" where
  "collectDead b allSnakes [] dead = dead"
| "collectDead b allSnakes (snake # rest) dead =
     (let head = hd (segments snake)
      in if hitWall head b \<or> headHitsBody (sid snake) head allSnakes
         then collectDead b allSnakes rest (setAdd (sid snake) dead)
         else collectDead b allSnakes rest dead)"

text \<open>
  The pellets one dead snake drops. \<open>dead\<close> is found in the input state, whose snakes all
  have a segment (or \<open>moveSnake\<close> would have thrown), so every index read is in range.
\<close>

definition deathPellets :: "Snake \<Rightarrow> Pellet list" where
  "deathPellets dead =
     (let n = int (length (segments dead));
          count = max 1 \<lfloor>real_of_int n * DEATH_PELLET_FRACTION\<rfloor>;
          step = max 1 \<lfloor>real_of_int n / real_of_int count\<rfloor>
      in map (\<lambda>i. let idx = min (i * step) (n - 1);
                     seg = segments dead ! nat idx
                 in \<lparr>px = px seg, py = py seg, pvalue = PELLET_VALUE\<rparr>)
             [0 ..< nat count])"

text \<open>The loop \<open>for (const id of deadIds)\<close>; \<open>find\<close> is \<open>Array.prototype.find\<close>.\<close>

fun dropDead :: "Snake list \<Rightarrow> string list \<Rightarrow> Pellet list \<Rightarrow> Pellet list" where
  "dropDead stateSnakes [] ps = ps"
| "dropDead stateSnakes (i # ids) ps =
     (case find (\<lambda>s. sid s = i) stateSnakes of
        None \<Rightarrow> dropDead stateSnakes ids ps
      | Some dead \<Rightarrow> dropDead stateSnakes ids (ps @ deathPellets dead))"

section \<open>The tick\<close>

record TickResult =
  state :: GameState
  deadIds :: "string list"

text \<open>
  \<open>tick\<close> calls \<open>Math.random()\<close> twice, and only when the spawn timer expires; the two
  values are the last argument. When no pellet was eaten, \<open>pellets\<close> is still the array of
  the input state and the pushes of the drop and of the spawn write into it; \<open>tick\<close> does
  not read that array again, so the value returned is the one computed here.
\<close>

definition tick :: "GameState \<Rightarrow> real \<Rightarrow> (string \<rightharpoonup> real) \<Rightarrow> real \<times> real \<Rightarrow> error + TickResult" where
  "tick st dt targetAngles rnd =
     (let b = bounds st;
          padding = ARENA_PADDING;
          minX = padding; maxX = width b - padding;
          minY = padding; maxY = height b - padding
      in case moveAll dt targetAngles (snakes st) of
           Inl e \<Rightarrow> Inl e
         | Inr moved \<Rightarrow>
             (let (grown, ps) = consumeAll moved (pellets st);
                  dead = collectDead b grown grown [];
                  alive = filter (\<lambda>s. sid s \<notin> set dead) grown;
                  ps2 = dropDead (snakes st) dead ps;
                  t = nextPelletSpawn st - dt;
                  (t', ps3) =
                    (if t \<le> 0
                     then (PELLET_SPAWN_INTERVAL,
                           ps2 @ [\<lparr>px = minX + fst rnd * (maxX - minX),
                                   py = minY + snd rnd * (maxY - minY),
                                   pvalue = PELLET_VALUE\<rparr>])
                     else (t, ps2))
              in Inr \<lparr>state = st\<lparr>snakes := alive, pellets := ps3, nextPelletSpawn := t'\<rparr>,
                      deadIds = dead\<rparr>))"

text \<open>
  \<open>SlitherPage\<close> calls \<open>tick(current, dt, targetAngles, { playerSpeedMultiplier })\<close>.
  \<open>tick\<close> declares three parameters, so the fourth argument is dropped by the call.
\<close>

record TickOptions =
  playerSpeedMultiplier :: real

definition tickWithOptions ::
  "GameState \<Rightarrow> real \<Rightarrow> (string \<rightharpoonup> real) \<Rightarrow> TickOptions \<Rightarrow> real \<times> real \<Rightarrow> error + TickResult" where
  "tickWithOptions st dt targetAngles options rnd = tick st dt targetAngles rnd"

section \<open>State construction\<close>

text \<open>
  \<open>createInitialState\<close> draws from \<open>Math.random()\<close>. The model takes the values the
  successive calls return as a list, and is \<open>None\<close> when the list ends before the function
  does: the \<open>do ... while\<close> loop that rejects a spawn point in a used grid cell can go on
  for any number of draws. An absent option is \<open>None\<close> (the source's \<open>??\<close> defaults).
\<close>

record Options =
  optBounds :: "Bounds option"
  optNumBots :: "nat option"
  optNumPellets :: "nat option"

definition colors :: "string list" where
  "colors = [''#33cc33'', ''#e74c3c'', ''#3498db'', ''#f1c40f'',
             ''#9b59b6'', ''#1abc9c'', ''#e67e22'', ''#2ecc71'']"

definition playerColor :: string where
  "playerColor = ''#00ff88''"

text \<open>A non-negative integer in a template literal: its decimal digits.\<close>

function showNat :: "nat \<Rightarrow> string" where
  "showNat n = (if n < 10 then [''0123456789'' ! n]
                else showNat (n div 10) @ [''0123456789'' ! (n mod 10)])"
  by pat_completeness auto
termination
  by (relation "measure (\<lambda>n. n)") auto

declare showNat.simps [simp del]

text \<open>
  The key \<open>`${Math.floor(x / 50)},${Math.floor(y / 50)}`\<close> of a spawn point. Two keys are
  the same string exactly when the two integers are the same, so the key is the pair.
\<close>

definition spotKey :: "real \<Rightarrow> real \<Rightarrow> int \<times> int" where
  "spotKey x y = (\<lfloor>x / 50\<rfloor>, \<lfloor>y / 50\<rfloor>)"

text \<open>
  The \<open>do ... while (usedPositions.has(key))\<close> loop: two draws for each try. It returns
  the point, its key and the draws left.
\<close>

fun pickSpot ::
  "real \<Rightarrow> real \<Rightarrow> real \<Rightarrow> real \<Rightarrow> (int \<times> int) set \<Rightarrow> real list
     \<Rightarrow> (real \<times> real \<times> (int \<times> int) \<times> real list) option" where
  "pickSpot minX maxX minY maxY used (r1 # r2 # rs) =
     (let x = minX + r1 * (maxX - minX);
          y = minY + r2 * (maxY - minY);
          key = spotKey x y
      in if key \<in> used then pickSpot minX maxX minY maxY used rs
         else Some (x, y, key, rs))"
| "pickSpot minX maxX minY maxY used rs = None"

text \<open>The inner \<open>for\<close> loop: the straight tail behind the head.\<close>

definition initialSegments :: "real \<Rightarrow> real \<Rightarrow> real \<Rightarrow> Point list" where
  "initialSegments x y ang =
     map (\<lambda>s. \<lparr>px = x - cos ang * real s * SEGMENT_SPACING,
                 py = y - sin ang * real s * SEGMENT_SPACING\<rparr>)
       [0 ..< INITIAL_LENGTH]"

definition newSnake :: "nat \<Rightarrow> real \<Rightarrow> real \<Rightarrow> real \<Rightarrow> Snake" where
  "newSnake i x y ang =
     (let isPlayer = (i = 0)
      in \<lparr>sid = (if isPlayer then ''player'' else ''snake-'' @ showNat i),
          segments = initialSegments x y ang,
          angle = ang, speed = DEFAULT_SPEED, turnSpeed = TURN_SPEED,
          color = (if isPlayer then playerColor else colors ! (i mod length colors)),
          isPlayer = isPlayer\<rparr>)"

text \<open>
  The loop \<open>for (let i = 0; i < numBots; i++)\<close>: the first argument is \<open>i\<close>, the second
  the number of rounds left.
\<close>

fun buildSnakes ::
  "nat \<Rightarrow> nat \<Rightarrow> real \<Rightarrow> real \<Rightarrow> real \<Rightarrow> real \<Rightarrow> (int \<times> int) set \<Rightarrow> real list
     \<Rightarrow> (Snake list \<times> real list) option" where
  "buildSnakes i 0 minX maxX minY maxY used rs = Some ([], rs)"
| "buildSnakes i (Suc n) minX maxX minY maxY used rs =
     (case pickSpot minX maxX minY maxY used rs of
        None \<Rightarrow> None
      | Some (x, y, key, rs1) \<Rightarrow>
          (case rs1 of
             [] \<Rightarrow> None
           | r # rs2 \<Rightarrow>
               (let ang = r * 2 * pi - pi
                in case buildSnakes (Suc i) n minX maxX minY maxY (insert key used) rs2 of
                     None \<Rightarrow> None
                   | Some (rest, rs3) \<Rightarrow> Some (newSnake i x y ang # rest, rs3))))"

text \<open>The loop \<open>for (let p = 0; p < numPellets; p++)\<close>, two draws for each pellet.\<close>

fun buildPellets ::
  "nat \<Rightarrow> real \<Rightarrow> real \<Rightarrow> real \<Rightarrow> real \<Rightarrow> real list \<Rightarrow> (Pellet list \<times> real list) option" where
  "buildPellets 0 minX maxX minY maxY rs = Some ([], rs)"
| "buildPellets (Suc n) minX maxX minY maxY (r1 # r2 # rs) =
     (case buildPellets n minX maxX minY maxY rs of
        None \<Rightarrow> None
      | Some (rest, rs') \<Rightarrow>
          Some (\<lparr>px = minX + r1 * (maxX - minX), py = minY + r2 * (maxY - minY),
                 pvalue = PELLET_VALUE\<rparr> # rest, rs'))"
| "buildPellets (Suc n) minX maxX minY maxY rs = None"

definition boundsOf :: "Options \<Rightarrow> Bounds" where
  "boundsOf options = (case optBounds options of None \<Rightarrow> \<lparr>width = 3000, height = 3000\<rparr> | Some b \<Rightarrow> b)"

definition numBotsOf :: "Options \<Rightarrow> nat" where
  "numBotsOf options = (case optNumBots options of None \<Rightarrow> 8 | Some n \<Rightarrow> n)"

definition numPelletsOf :: "Options \<Rightarrow> nat" where
  "numPelletsOf options = (case optNumPellets options of None \<Rightarrow> 80 | Some n \<Rightarrow> n)"

definition createInitialState :: "Options \<Rightarrow> real list \<Rightarrow> GameState option" where
  "createInitialState options rs =
     (let b = boundsOf options;
          numBots = numBotsOf options;
          numPellets = numPelletsOf options;
          padding = ARENA_PADDING;
          minX = padding; maxX = width b - padding;
          minY = padding; maxY = height b - padding
      in case buildSnakes 0 numBots minX maxX minY maxY {} rs of
           None \<Rightarrow> None
         | Some (ss, rs1) \<Rightarrow>
             (case buildPellets numPellets minX maxX minY maxY rs1 of
                None \<Rightarrow> None
              | Some (ps, rs2) \<Rightarrow>
                  Some \<lparr>snakes = ss, pellets = ps, bounds = b, nextSnakeId = numBots,
                        nextPelletSpawn = PELLET_SPAWN_INTERVAL\<rparr>))"

section \<open>The normalization loop in double arithmetic\<close>

text \<open>
  Whether the loops of \<open>normalizeAngle\<close> end depends on rounding, which the real-valued
  model above leaves out. Here the subtraction \<open>a -= 2 * Math.PI\<close> and the addition
  \<open>a += 2 * Math.PI\<close> are IEEE 754 binary64 operations: the exact result, rounded to the
  nearest number with 53 significant bits, ties to even. \<open>toDouble\<close> is that rounding for
  results in the normal range (the overflow and subnormal ranges play no part below).
  \<open>Math.PI\<close> is the double \<open>0x400921FB54442D18\<close>; \<open>2 * Math.PI\<close> is exact. A loop that
  never ends is the value \<open>None\<close>.
\<close>

definition roundNearestEven :: "real \<Rightarrow> int" where
  "roundNearestEven y =
     (let f = \<lfloor>y\<rfloor>; r = y - of_int f
      in if r < 1 / 2 then f
         else if 1 / 2 < r then f + 1
         else if even f then f else f + 1)"

definition toDouble :: "real \<Rightarrow> real" where
  "toDouble x =
     (if x = 0 then 0
      else (let e = \<lfloor>log 2 \<bar>x\<bar>\<rfloor>;
                u = 2 powr of_int (e - 52)
            in of_int (roundNearestEven (x / u)) * u))"

definition MATH_PI :: real where
  "MATH_PI = 884279719003555 / 281474976710656"

partial_function (option) normalizeAngle_down_fl :: "real \<Rightarrow> real option" where
  "normalizeAngle_down_fl a =
     (if a > MATH_PI then normalizeAngle_down_fl (toDouble (a - 2 * MATH_PI)) else Some a)"

partial_function (option) normalizeAngle_up_fl :: "real \<Rightarrow> real option" where
  "normalizeAngle_up_fl a =
     (if a < - MATH_PI then normalizeAngle_up_fl (toDouble (a + 2 * MATH_PI)) else Some a)"

definition normalizeAngle_fl :: "real \<Rightarrow> real option" where
  "normalizeAngle_fl a =
     (case normalizeAngle_down_fl a of None \<Rightarrow> None | Some b \<Rightarrow> normalizeAngle_up_fl b)"

text \<open>
  The first statement of the steering of \<open>moveSnake\<close>,
  \<open>diff = normalizeAngle(targetAngle - angle)\<close>, in double arithmetic.
\<close>

definition headingDiff_fl :: "Snake \<Rightarrow> real \<Rightarrow> real option" where
  "headingDiff_fl snake targetAngle = normalizeAngle_fl (toDouble (targetAngle - angle snake))"

section \<open>Notions used to state the properties\<close>

text \<open>
  A pellet is in reach of a head when the distance between the two points is below
  \<open>PELLET_RADIUS + HEAD_RADIUS\<close>, compared in squares.
\<close>

definition inReach :: "Point \<Rightarrow> Pellet \<Rightarrow> bool" where
  "inReach h p \<longleftrightarrow>
     (px p - px h)\<^sup>2 + (py p - py h)\<^sup>2 < (PELLET_RADIUS + HEAD_RADIUS)\<^sup>2"

text \<open>
  The death rule in the words of the specification. A head is at a wall when its distance
  to one of the four walls of the arena is below \<open>HEAD_RADIUS\<close>, and it touches a segment
  when the distance between the two points is below \<open>HEAD_RADIUS + BODY_RADIUS\<close>, compared
  in squares. The theorems compare them with \<open>hitWall\<close> and \<open>headHitsBody\<close>.
\<close>

definition headAtWall :: "Bounds \<Rightarrow> Point \<Rightarrow> bool" where
  "headAtWall b h \<longleftrightarrow>
     px h < HEAD_RADIUS \<or> py h < HEAD_RADIUS \<or>
     width b - px h < HEAD_RADIUS \<or> height b - py h < HEAD_RADIUS"

definition headTouches :: "Point \<Rightarrow> Point \<Rightarrow> bool" where
  "headTouches h seg \<longleftrightarrow>
     (px seg - px h)\<^sup>2 + (py seg - py h)\<^sup>2 < (HEAD_RADIUS + BODY_RADIUS)\<^sup>2"

text \<open>
  The pellets that the consumption pass lets the \<open>k\<close>-th organism of the array eat: the
  pellets of the set in reach of its head that are in reach of no earlier organism's head.
  This follows the wording of the specification; the theorems compare it with
  \<open>consumeAll\<close>.
\<close>

definition pelletsEatenBy :: "Snake list \<Rightarrow> Pellet list \<Rightarrow> nat \<Rightarrow> Pellet list" where
  "pelletsEatenBy ms ps k =
     filter (\<lambda>p. inReach (hd (segments (ms ! k))) p \<and>
                 (\<forall>m \<in> set (take k ms). \<not> inReach (hd (segments m)) p))
       ps"

text \<open>The pellet that the periodic spawn of \<open>tick\<close> pushes, as an expression of its own.\<close>

definition spawnPellet :: "GameState \<Rightarrow> real \<times> real \<Rightarrow> Pellet" where
  "spawnPellet st rnd = \<lparr>px = ARENA_PADDING + fst rnd * (width (bounds st) - ARENA_PADDING - ARENA_PADDING),
     py = ARENA_PADDING + snd rnd * (height (bounds st) - ARENA_PADDING - ARENA_PADDING),
     pvalue = PELLET_VALUE\<rparr>"

section \<open>Concrete game states\<close>

text \<open>
  A player of two segments heading along the x axis, with one pellet lying where its head
  arrives after a sixtieth of a second.
\<close>

definition exSnake :: Snake where
  "exSnake = \<lparr>sid = ''player'', segments = [\<lparr>px = 100, py = 100\<rparr>, \<lparr>px = 92, py = 100\<rparr>],
     angle = 0, speed = DEFAULT_SPEED, turnSpeed = TURN_SPEED, color = ''#00ff88'',
     isPlayer = True\<rparr>"

definition exPellet :: Pellet where
  "exPellet = \<lparr>px = 102, py = 100, pvalue = PELLET_VALUE\<rparr>"

definition exState :: GameState where
  "exState = \<lparr>snakes = [exSnake], pellets = [exPellet],
     bounds = \<lparr>width = 3000, height = 3000\<rparr>, nextSnakeId = 1, nextPelletSpawn = 2\<rparr>"

definition exResult :: TickResult where
  "exResult = \<lparr>state = exState\<lparr>
       snakes := [exSnake\<lparr>segments :=
          [\<lparr>px = 102, py = 100\<rparr>, \<lparr>px = 94, py = 100\<rparr>, \<lparr>px = 94, py = 100\<rparr>]\<rparr>],
       pellets := [], nextPelletSpawn := 119 / 60\<rparr>,
     deadIds = []\<rparr>"

text \<open>A single-segment player, no pellets: the state of the steering example.\<close>

definition turnSnake :: Snake where
  "turnSnake = exSnake\<lparr>segments := [\<lparr>px = 100, py = 100\<rparr>]\<rparr>"

definition turnState :: GameState where
  "turnState = exState\<lparr>snakes := [turnSnake], pellets := []\<rparr>"

text \<open>
  Two organisms that run into each other: after the move the head of each is ten units
  from a segment of the other.
\<close>

definition duelA :: Snake where
  "duelA = \<lparr>sid = ''player'',
     segments = [\<lparr>px = 100, py = 100\<rparr>, \<lparr>px = 92, py = 100\<rparr>, \<lparr>px = 84, py = 100\<rparr>,
                 \<lparr>px = 76, py = 100\<rparr>, \<lparr>px = 68, py = 100\<rparr>],
     angle = 0, speed = DEFAULT_SPEED, turnSpeed = TURN_SPEED, color = ''#00ff88'',
     isPlayer = True\<rparr>"

definition duelB :: Snake where
  "duelB = \<lparr>sid = ''snake-1'', segments = [\<lparr>px = 110, py = 100\<rparr>],
     angle = 0, speed = DEFAULT_SPEED, turnSpeed = TURN_SPEED, color = ''#e74c3c'',
     isPlayer = False\<rparr>"

definition duelState :: GameState where
  "duelState = \<lparr>snakes = [duelA, duelB], pellets = [],
     bounds = \<lparr>width = 3000, height = 3000\<rparr>, nextSnakeId = 2, nextPelletSpawn = 2\<rparr>"

text \<open>The two after \<open>moveSnake\<close>: each has advanced two units along the x axis.\<close>

definition duelMoved :: "Snake list" where
  "duelMoved = [duelA\<lparr>segments := [\<lparr>px = 102, py = 100\<rparr>, \<lparr>px = 94, py = 100\<rparr>, \<lparr>px = 86, py = 100\<rparr>,
                 \<lparr>px = 78, py = 100\<rparr>, \<lparr>px = 70, py = 100\<rparr>]\<rparr>,
                duelB\<lparr>segments := [\<lparr>px = 112, py = 100\<rparr>]\<rparr>]"

definition duelResult :: TickResult where
  "duelResult = \<lparr>state = duelState\<lparr>
       snakes := [],
       pellets := [\<lparr>px = 100, py = 100, pvalue = 1\<rparr>, \<lparr>px = 84, py = 100, pvalue = 1\<rparr>,
                   \<lparr>px = 110, py = 100, pvalue = 1\<rparr>],
       nextPelletSpawn := 119 / 60\<rparr>,
     deadIds = [''player'', ''snake-1'']\<rparr>"

text \<open>
  The drop the specification describes for a body \<open>segs\<close>: \<open>max(1, floor(fraction * n))\<close>
  pellets of value \<open>PELLET_VALUE\<close>, taken at every \<open>max(1, floor(n / count))\<close>-th index of
  the body. The theorems compare it with \<open>deathPellets\<close>.
\<close>

definition sampledDrop :: "Point list \<Rightarrow> Pellet list" where
  "sampledDrop segs =
     (let n = length segs;
          count = max 1 (nat \<lfloor>DEATH_PELLET_FRACTION * real n\<rfloor>);
          step = max 1 (n div count)
      in map (\<lambda>j. \<lparr>px = px (segs ! min (j * step) (n - 1)),
                     py = py (segs ! min (j * step) (n - 1)),
                     pvalue = PELLET_VALUE\<rparr>)
           [0 ..< count])"

text \<open>The steering example after a tick whose target heading for the player is 2.\<close>

definition turnResult :: TickResult where
  "turnResult = \<lparr>state = turnState\<lparr>
       snakes := [turnSnake\<lparr>segments := [\<lparr>px = 100 + cos (2 / 15) * 2, py = 100 + sin (2 / 15) * 2\<rparr>],
                            angle := 2 / 15\<rparr>],
       pellets := [], nextPelletSpawn := 119 / 60\<rparr>,
     deadIds = []\<rparr>"

text \<open>
  The draws of a run of \<open>createInitialState\<close> that returns. For each organism: any
  number of rejected tries (an x draw and a y draw giving a point in a used grid cell),
  then the accepted try (a point in a cell no earlier organism used), then the heading
  draw.
\<close>

type_synonym spawnRun = "(real \<times> real) list \<times> real \<times> real \<times> real"

fun acceptedRuns ::
  "real \<Rightarrow> real \<Rightarrow> real \<Rightarrow> real \<Rightarrow> (int \<times> int) set \<Rightarrow> spawnRun list \<Rightarrow> bool" where
  "acceptedRuns minX maxX minY maxY used [] = True"
| "acceptedRuns minX maxX minY maxY used ((rejected, a, b, c) # runs) =
     (let key = spotKey (minX + a * (maxX - minX)) (minY + b * (maxY - minY))
      in list_all (\<lambda>(a', b'). spotKey (minX + a' * (maxX - minX)) (minY + b' * (maxY - minY)) \<in> used)
           rejected \<and>
         key \<notin> used \<and>
         acceptedRuns minX maxX minY maxY (insert key used) runs)"

fun runDraws :: "spawnRun list \<Rightarrow> real list" where
  "runDraws [] = []"
| "runDraws ((rejected, a, b, c) # runs) =
     concat (map (\<lambda>(a', b'). [a', b']) rejected) @ [a, b, c] @ runDraws runs"

text \<open>The heads and headings the accepted tries of such a run give.\<close>

definition runHeads :: "real \<Rightarrow> real \<Rightarrow> real \<Rightarrow> real \<Rightarrow> spawnRun list \<Rightarrow> Point list" where
  "runHeads minX maxX minY maxY runs =
     map (\<lambda>(rejected, a, b, c). \<lparr>px = minX + a * (maxX - minX), py = minY + b * (maxY - minY)\<rparr>) runs"

definition runHeadings :: "spawnRun list \<Rightarrow> real list" where
  "runHeadings runs = map (\<lambda>(rejected, a, b, c). c * 2 * pi - pi) runs"

text \<open>A point within the bounds inset by the arena padding.\<close>

definition inPadded :: "Bounds \<Rightarrow> 'a Point_scheme \<Rightarrow> bool" where
  "inPadded b q =
     (ARENA_PADDING \<le> px q \<and> px q \<le> width b - ARENA_PADDING \<and>
      ARENA_PADDING \<le> py q \<and> py q \<le> height b - ARENA_PADDING)"

text \<open>
  Two calls of \<open>createInitialState\<close> with default bounds: one player and no pellet, drawing
  \<open>0, 0, 1/2\<close>; two organisms and one pellet.
\<close>

definition soloOptions :: Options where
  "soloOptions = \<lparr>optBounds = None, optNumBots = Some 1, optNumPellets = Some 0\<rparr>"

definition soloState :: GameState where
  "soloState = \<lparr>snakes = [newSnake 0 40 40 0], pellets = [],
     bounds = \<lparr>width = 3000, height = 3000\<rparr>, nextSnakeId = 1,
     nextPelletSpawn = PELLET_SPAWN_INTERVAL\<rparr>"

definition pairOptions :: Options where
  "pairOptions = \<lparr>optBounds = None, optNumBots = Some 2, optNumPellets = Some 1\<rparr>"

definition pairState :: GameState where
  "pairState = \<lparr>snakes = [newSnake 0 40 40 0, newSnake 1 1500 1500 0],
     pellets = [\<lparr>px = 770, py = 770, pvalue = PELLET_VALUE\<rparr>],
     bounds = \<lparr>width = 3000, height = 3000\<rparr>, nextSnakeId = 2,
     nextPelletSpawn = PELLET_SPAWN_INTERVAL\<rparr>"

text \<open>A single-segment player that starts five units from the left wall.\<close>

definition wallSnake :: Snake where
  "wallSnake = exSnake\<lparr>segments := [\<lparr>px = 5, py = 100\<rparr>]\<rparr>"

definition wallState :: GameState where
  "wallState = exState\<lparr>snakes := [wallSnake], pellets := []\<rparr>"

definition wallResult :: TickResult where
  "wallResult = \<lparr>state = wallState\<lparr>
       snakes := [],
       pellets := [\<lparr>px = 5, py = 100, pvalue = 1\<rparr>],
       nextPelletSpawn := 119 / 60\<rparr>,
     deadIds = [''player'']\<rparr>"

text \<open>
  Two organisms whose heads, after the move, are both fifteen units from the same pellet
  and thirty units from each other; a second pellet lies far from both.
\<close>

definition feastA :: Snake where
  "feastA = exSnake\<lparr>segments := [\<lparr>px = 98, py = 100\<rparr>]\<rparr>"

definition feastB :: Snake where
  "feastB = duelB\<lparr>segments := [\<lparr>px = 98, py = 130\<rparr>]\<rparr>"

definition feastState :: GameState where
  "feastState = \<lparr>snakes = [feastA, feastB],
     pellets = [\<lparr>px = 100, py = 115, pvalue = 1\<rparr>, \<lparr>px = 500, py = 500, pvalue = 1\<rparr>],
     bounds = \<lparr>width = 3000, height = 3000\<rparr>, nextSnakeId = 2, nextPelletSpawn = 2\<rparr>"

definition feastMoved :: "Snake list" where
  "feastMoved = [feastA\<lparr>segments := [\<lparr>px = 100, py = 100\<rparr>]\<rparr>,
                 feastB\<lparr>segments := [\<lparr>px = 100, py = 130\<rparr>]\<rparr>]"

definition feastGrown :: "Snake list" where
  "feastGrown = [feastA\<lparr>segments := [\<lparr>px = 100, py = 100\<rparr>, \<lparr>px = 100, py = 100\<rparr>]\<rparr>,
                 feastB\<lparr>segments := [\<lparr>px = 100, py = 130\<rparr>]\<rparr>]"

definition feastResult :: TickResult where
  "feastResult = \<lparr>state = feastState\<lparr>
       snakes := feastGrown,
       pellets := [\<lparr>px = 500, py = 500, pvalue = 1\<rparr>],
       nextPelletSpawn := 119 / 60\<rparr>,
     deadIds = []\<rparr>"

text \<open>An organism whose id is the name of a member of \<open>Object.prototype\<close>.\<close>

definition protoSnake :: Snake where
  "protoSnake = turnSnake\<lparr>sid := ''toString'', isPlayer := False\<rparr>"

definition protoState :: GameState where
  "protoState = exState\<lparr>snakes := [protoSnake], pellets := []\<rparr>"

section \<open>Facts about angle normalization\<close>

lemma normalizeAngle_down_id: "a \<le> pi \<Longrightarrow> normalizeAngle_down a = a"
  by (simp add: normalizeAngle_down.simps)

lemma normalizeAngle_up_id: "- pi \<le> a \<Longrightarrow> normalizeAngle_up a = a"
  by (simp add: normalizeAngle_up.simps)

lemma normalizeAngle_id: "- pi \<le> a \<Longrightarrow> a \<le> pi \<Longrightarrow> normalizeAngle a = a"
  by (simp add: normalizeAngle_def normalizeAngle_down_id normalizeAngle_up_id)

lemma normalizeAngle_down_le: "normalizeAngle_down a \<le> pi"
  by (induction a rule: normalizeAngle_down.induct) (simp add: normalizeAngle_down.simps)


lemma normalizeAngle_down_shift: "\<exists>j::int. normalizeAngle_down a = a + 2 * pi * of_int j"
proof (induction a rule: normalizeAngle_down.induct)
  case (1 a)
  show ?case
  proof (cases "a > pi")
    case True
    with 1 obtain j :: int where "normalizeAngle_down (a - 2 * pi) = a - 2 * pi + 2 * pi * of_int j"
      by blast
    moreover have "normalizeAngle_down a = normalizeAngle_down (a - 2 * pi)"
      using True by (subst normalizeAngle_down.simps) simp
    ultimately have "normalizeAngle_down a = a + 2 * pi * of_int (j - 1)"
      by (simp add: algebra_simps)
    then show ?thesis by blast
  next
    case False
    then have "normalizeAngle_down a = a + 2 * pi * of_int 0"
      by (subst normalizeAngle_down.simps) simp
    then show ?thesis by blast
  qed
qed

lemma normalizeAngle_up_ge: "- pi \<le> normalizeAngle_up a"
  by (induction a rule: normalizeAngle_up.induct) (simp add: normalizeAngle_up.simps)

lemma normalizeAngle_up_le: "a \<le> pi \<Longrightarrow> normalizeAngle_up a \<le> pi"
proof (induction a rule: normalizeAngle_up.induct)
  case (1 a)
  show ?case
  proof (cases "a < - pi")
    case True
    then have "a + 2 * pi \<le> pi" by simp
    with 1 True have "normalizeAngle_up (a + 2 * pi) \<le> pi" by simp
    moreover have "normalizeAngle_up a = normalizeAngle_up (a + 2 * pi)"
      using True by (subst normalizeAngle_up.simps) simp
    ultimately show ?thesis by simp
  next
    case False
    with 1 show ?thesis by (subst normalizeAngle_up.simps) simp
  qed
qed

lemma normalizeAngle_up_shift: "\<exists>j::int. normalizeAngle_up a = a + 2 * pi * of_int j"
proof (induction a rule: normalizeAngle_up.induct)
  case (1 a)
  show ?case
  proof (cases "a < - pi")
    case True
    with 1 obtain j :: int where "normalizeAngle_up (a + 2 * pi) = a + 2 * pi + 2 * pi * of_int j"
      by blast
    moreover have "normalizeAngle_up a = normalizeAngle_up (a + 2 * pi)"
      using True by (subst normalizeAngle_up.simps) simp
    ultimately have "normalizeAngle_up a = a + 2 * pi * of_int (j + 1)"
      by (simp add: algebra_simps)
    then show ?thesis by blast
  next
    case False
    then have "normalizeAngle_up a = a + 2 * pi * of_int 0"
      by (subst normalizeAngle_up.simps) simp
    then show ?thesis by blast
  qed
qed

lemma normalizeAngle_range: "- pi \<le> normalizeAngle a \<and> normalizeAngle a \<le> pi"
  by (simp add: normalizeAngle_def normalizeAngle_up_ge normalizeAngle_up_le normalizeAngle_down_le)

lemma normalizeAngle_shift: "\<exists>j::int. normalizeAngle a = a + 2 * pi * of_int j"
proof -
  obtain j :: int where j: "normalizeAngle_down a = a + 2 * pi * of_int j"
    using normalizeAngle_down_shift by blast
  obtain k :: int where k: "normalizeAngle_up (normalizeAngle_down a) = normalizeAngle_down a + 2 * pi * of_int k"
    using normalizeAngle_up_shift by blast
  have "normalizeAngle a = normalizeAngle_down a + 2 * pi * of_int k"
    by (simp only: normalizeAngle_def k)
  also have "\<dots> = a + 2 * pi * of_int j + 2 * pi * of_int k"
    by (simp only: j)
  finally have "normalizeAngle a = a + 2 * pi * of_int (j + k)"
    by (simp add: algebra_simps)
  then show ?thesis by blast
qed

section \<open>Facts about movement\<close>


lemma hypot_axis: "hypot a 0 = \<bar>a\<bar>"
  by (simp add: hypot_def)

lemma hypot_scaled:
  assumes "0 \<le> c"
  shows "hypot (c * a) (c * b) = c * hypot a b"
proof -
  have "c * a * (c * a) + c * b * (c * b) = c\<^sup>2 * (a * a + b * b)"
    by (simp add: power2_eq_square algebra_simps)
  then have "hypot (c * a) (c * b) = sqrt (c\<^sup>2 * (a * a + b * b))"
    by (simp only: hypot_def)
  also have "\<dots> = \<bar>c\<bar> * sqrt (a * a + b * b)"
    by (simp add: real_sqrt_mult)
  finally show ?thesis using assms by (simp add: hypot_def)
qed


lemma hypot_cos_sin: "hypot (cos t) (sin t) = 1"
proof -
  have "cos t * cos t + sin t * sin t = 1"
    using sin_cos_squared_add2 [of t] by (simp add: power2_eq_square)
  then show ?thesis by (simp add: hypot_def)
qed

lemma followStep_spacing:
  "hypot (px prev - px (followStep ang prev cur)) (py prev - py (followStep ang prev cur))
     = SEGMENT_SPACING"
proof -
  define u where "u = px prev - px cur"
  define v where "v = py prev - py cur"
  define d where "d = hypot u v"
  show ?thesis
  proof (cases "d \<le> 1 / 1000000")
    case True
    then have "followStep ang prev cur =
        \<lparr>px = px prev - cos ang * SEGMENT_SPACING, py = py prev - sin ang * SEGMENT_SPACING\<rparr>"
      by (simp add: followStep_def d_def u_def v_def Let_def)
    then have "hypot (px prev - px (followStep ang prev cur)) (py prev - py (followStep ang prev cur))
        = hypot (8 * cos ang) (8 * sin ang)"
      by (simp add: SEGMENT_SPACING_def mult.commute)
    also have "\<dots> = 8 * hypot (cos ang) (sin ang)"
      by (rule hypot_scaled) simp
    finally show ?thesis by (simp add: hypot_cos_sin SEGMENT_SPACING_def)
  next
    case False
    then have dpos: "0 < d" by simp
    from False have "followStep ang prev cur =
        \<lparr>px = px prev + ((px cur - px prev) / d) * SEGMENT_SPACING,
         py = py prev + ((py cur - py prev) / d) * SEGMENT_SPACING\<rparr>"
      by (simp add: followStep_def d_def u_def v_def Let_def)
    then have "px prev - px (followStep ang prev cur) = (8 / d) * u"
      and "py prev - py (followStep ang prev cur) = (8 / d) * v"
      using dpos by (simp_all add: SEGMENT_SPACING_def u_def v_def field_simps)
    then have "hypot (px prev - px (followStep ang prev cur)) (py prev - py (followStep ang prev cur))
        = hypot ((8 / d) * u) ((8 / d) * v)"
      by (simp only:)
    also have "\<dots> = (8 / d) * hypot u v"
      by (rule hypot_scaled) (use dpos in simp)
    also have "\<dots> = 8"
      using dpos by (simp add: d_def)
    finally show ?thesis by (simp add: SEGMENT_SPACING_def)
  qed
qed

lemma follow_length: "length (follow ang prev rest) = length rest"
  by (induction rest arbitrary: prev) (simp_all add: Let_def)

lemma follow_spacing:
  "Suc i < length (prev # follow ang prev rest) \<Longrightarrow>
   hypot (px ((prev # follow ang prev rest) ! i) - px ((prev # follow ang prev rest) ! Suc i))
         (py ((prev # follow ang prev rest) ! i) - py ((prev # follow ang prev rest) ! Suc i))
     = SEGMENT_SPACING"
proof (induction rest arbitrary: prev i)
  case Nil
  then show ?case by simp
next
  case (Cons cur rest)
  show ?case
  proof (cases i)
    case 0
    then show ?thesis by (simp add: Let_def followStep_spacing)
  next
    case (Suc k)
    with Cons.prems have "Suc k < length (followStep ang prev cur # follow ang (followStep ang prev cur) rest)"
      by (simp add: Let_def)
    from Cons.IH [OF this] Suc show ?thesis by (simp add: Let_def)
  qed
qed

lemma moveSnake_Inr:
  assumes "moveSnake s dt t = Inr s'"
  obtains head rest where "segments s = head # rest"
    and "angle s' = normalizeAngle (angle s + normalizeAngle (t - angle s) * min 1 (turnSpeed s * dt))"
    and "segments s' =
           \<lparr>px = px head + cos (angle s') * speed s * dt, py = py head + sin (angle s') * speed s * dt\<rparr>
           # follow (angle s')
               \<lparr>px = px head + cos (angle s') * speed s * dt, py = py head + sin (angle s') * speed s * dt\<rparr>
               rest"
    and "sid s' = sid s" and "speed s' = speed s" and "turnSpeed s' = turnSpeed s"
    and "color s' = color s" and "isPlayer s' = isPlayer s"
proof (cases "segments s")
  case Nil
  with assms show ?thesis by (simp add: moveSnake_def)
next
  case (Cons head rest)
  with assms have "s' = s\<lparr>segments :=
         \<lparr>px = px head + cos (normalizeAngle (angle s + normalizeAngle (t - angle s) * min 1 (turnSpeed s * dt))) * speed s * dt,
          py = py head + sin (normalizeAngle (angle s + normalizeAngle (t - angle s) * min 1 (turnSpeed s * dt))) * speed s * dt\<rparr>
         # follow (normalizeAngle (angle s + normalizeAngle (t - angle s) * min 1 (turnSpeed s * dt)))
            \<lparr>px = px head + cos (normalizeAngle (angle s + normalizeAngle (t - angle s) * min 1 (turnSpeed s * dt))) * speed s * dt,
             py = py head + sin (normalizeAngle (angle s + normalizeAngle (t - angle s) * min 1 (turnSpeed s * dt))) * speed s * dt\<rparr>
            rest,
       angle := normalizeAngle (angle s + normalizeAngle (t - angle s) * min 1 (turnSpeed s * dt))\<rparr>"
    by (simp add: moveSnake_def Let_def)
  then show ?thesis using Cons by (intro that [of head rest]) simp_all
qed

section \<open>Facts about pellet consumption\<close>

lemma eatPellets_eq:
  "i \<le> length ps \<Longrightarrow>
   eatPellets i head ps g =
     (filter (\<lambda>p. \<not> distSq head p < pelletRadiusSq) (take i ps) @ drop i ps,
      g + sum_list (map pvalue (filter (\<lambda>p. distSq head p < pelletRadiusSq) (take i ps))))"
proof (induction i arbitrary: ps g)
  case 0
  then show ?case by simp
next
  case (Suc i)
  then have lt: "i < length ps" by simp
  have tk: "take (Suc i) ps = take i ps @ [ps ! i]"
    using lt by (simp add: take_Suc_conv_app_nth)
  show ?case
  proof (cases "distSq head (ps ! i) < pelletRadiusSq")
    case True
    let ?ps' = "take i ps @ drop (Suc i) ps"
    have len: "i \<le> length ?ps'" using lt by simp
    have t': "take i ?ps' = take i ps" using lt by simp
    have d': "drop i ?ps' = drop (Suc i) ps" using lt by simp
    have "eatPellets i head ?ps' (g + pvalue (ps ! i)) =
        (filter (\<lambda>p. \<not> distSq head p < pelletRadiusSq) (take i ps) @ drop (Suc i) ps,
         g + pvalue (ps ! i)
           + sum_list (map pvalue (filter (\<lambda>p. distSq head p < pelletRadiusSq) (take i ps))))"
      using Suc.IH [OF len, of "g + pvalue (ps ! i)"] by (simp only: t' d')
    then show ?thesis
      using True by (simp add: tk)
  next
    case False
    have len: "i \<le> length ps" using lt by simp
    have dr: "drop i ps = ps ! i # drop (Suc i) ps"
      using lt by (simp add: Cons_nth_drop_Suc)
    show ?thesis
      using False Suc.IH [OF len, of g] by (simp add: tk dr)
  qed
qed

lemma pushTail_eq:
  "pushTail g lengthGain tail newSegments = newSegments @ replicate (nat \<lceil>lengthGain\<rceil> - g) tail"
proof (induction g lengthGain tail newSegments rule: pushTail.induct)
  case (1 g lengthGain tail newSegments)
  show ?case
  proof (cases "real g < lengthGain")
    case True
    then have "int g < \<lceil>lengthGain\<rceil>" by (simp add: less_ceiling_iff)
    then have "nat \<lceil>lengthGain\<rceil> - g = Suc (nat \<lceil>lengthGain\<rceil> - Suc g)" by linarith
    then have "replicate (nat \<lceil>lengthGain\<rceil> - g) tail = tail # replicate (nat \<lceil>lengthGain\<rceil> - Suc g) tail"
      by simp
    with True 1 show ?thesis
      by (subst pushTail.simps) simp
  next
    case False
    then have "\<lceil>lengthGain\<rceil> \<le> int g" by (simp add: ceiling_le_iff)
    then have "nat \<lceil>lengthGain\<rceil> - g = 0" by linarith
    with False show ?thesis by (subst pushTail.simps) simp
  qed
qed

lemma eatAndGrow_eq:
  "eatAndGrow snake ps =
     (snake\<lparr>segments := segments snake @
         replicate (nat \<lceil>sum_list (map pvalue (filter (\<lambda>p. distSq (hd (segments snake)) p < pelletRadiusSq) ps))\<rceil>)
           (last (segments snake))\<rparr>,
      filter (\<lambda>p. \<not> distSq (hd (segments snake)) p < pelletRadiusSq) ps)"
proof -
  let ?gain = "sum_list (map pvalue (filter (\<lambda>p. distSq (hd (segments snake)) p < pelletRadiusSq) ps))"
  have eat: "eatPellets (length ps) (hd (segments snake)) ps 0 =
      (filter (\<lambda>p. \<not> distSq (hd (segments snake)) p < pelletRadiusSq) ps, ?gain)"
    by (simp add: eatPellets_eq)
  show ?thesis
  proof (cases "?gain \<le> 0")
    case True
    then have "\<lceil>?gain\<rceil> \<le> 0" by (simp add: ceiling_le_iff)
    then have "nat \<lceil>?gain\<rceil> = 0" by simp
    with True show ?thesis by (simp add: eatAndGrow_def eat)
  next
    case False
    then show ?thesis by (simp add: eatAndGrow_def eat Let_def pushTail_eq)
  qed
qed

section \<open>Facts about consumption order, collisions and drops\<close>

lemma distSq_inReach: "distSq h p < pelletRadiusSq \<longleftrightarrow> inReach h p"
  by (simp add: distSq_def pelletRadiusSq_def inReach_def Let_def power2_eq_square)

lemma consumeAll_length: "consumeAll ms ps = (grown, ps') \<Longrightarrow> length grown = length ms"
  by (induction ms arbitrary: ps grown ps') (auto simp: eatAndGrow_eq split: prod.splits)

lemma consumeAll_remaining:
  "consumeAll ms ps = (grown, ps') \<Longrightarrow>
   ps' = filter (\<lambda>p. \<forall>m \<in> set ms. \<not> distSq (hd (segments m)) p < pelletRadiusSq) ps"
proof (induction ms arbitrary: ps grown ps')
  case Nil
  then show ?case by simp
next
  case (Cons m rest)
  obtain rest' ps2 where rec:
    "consumeAll rest (filter (\<lambda>p. \<not> distSq (hd (segments m)) p < pelletRadiusSq) ps) = (rest', ps2)"
    by (cases "consumeAll rest (filter (\<lambda>p. \<not> distSq (hd (segments m)) p < pelletRadiusSq) ps)")
  with Cons.prems have "ps' = ps2" by (simp add: eatAndGrow_eq)
  with Cons.IH [OF rec] show ?case by (simp add: conj_commute)
qed

lemma consumeAll_nth:
  "consumeAll ms ps = (grown, ps') \<Longrightarrow> k < length ms \<Longrightarrow>
   grown ! k = (ms ! k)\<lparr>segments := segments (ms ! k) @
       replicate (nat \<lceil>sum_list (map pvalue (pelletsEatenBy ms ps k))\<rceil>) (last (segments (ms ! k)))\<rparr>"
proof (induction ms arbitrary: ps grown ps' k)
  case Nil
  then show ?case by simp
next
  case (Cons m rest)
  let ?ps1 = "filter (\<lambda>p. \<not> distSq (hd (segments m)) p < pelletRadiusSq) ps"
  obtain rest' ps2 where rec: "consumeAll rest ?ps1 = (rest', ps2)"
    by (cases "consumeAll rest ?ps1")
  from Cons.prems(1) rec have grown: "grown = (m\<lparr>segments := segments m @
       replicate (nat \<lceil>sum_list (map pvalue (filter (\<lambda>p. distSq (hd (segments m)) p < pelletRadiusSq) ps))\<rceil>)
         (last (segments m))\<rparr>) # rest'"
    by (simp add: eatAndGrow_eq)
  show ?case
  proof (cases k)
    case 0
    then show ?thesis
      by (simp add: grown pelletsEatenBy_def distSq_inReach [symmetric])
  next
    case (Suc j)
    with Cons.prems(2) have j: "j < length rest" by simp
    have "pelletsEatenBy rest ?ps1 j = pelletsEatenBy (m # rest) ps (Suc j)"
      by (simp add: pelletsEatenBy_def distSq_inReach [symmetric] conj_commute conj_left_commute)
    with Cons.IH [OF rec j] Suc show ?thesis by (simp add: grown)
  qed
qed

lemma pelletsEatenBy_partition:
  "mset ps =
     mset (filter (\<lambda>p. \<forall>m \<in> set ms. \<not> distSq (hd (segments m)) p < pelletRadiusSq) ps)
       + (\<Sum>k<length ms. mset (pelletsEatenBy ms ps k))"
proof (induction ms arbitrary: ps)
  case Nil
  then show ?case by simp
next
  case (Cons m rest)
  let ?near = "\<lambda>p. distSq (hd (segments m)) p < pelletRadiusSq"
  let ?ps1 = "filter (\<lambda>p. \<not> ?near p) ps"
  have shift: "pelletsEatenBy rest ?ps1 j = pelletsEatenBy (m # rest) ps (Suc j)" for j
    by (simp add: pelletsEatenBy_def distSq_inReach [symmetric] conj_commute conj_left_commute)
  have first: "pelletsEatenBy (m # rest) ps 0 = filter ?near ps"
    by (simp add: pelletsEatenBy_def distSq_inReach [symmetric])
  have "mset ps = mset (filter ?near ps) + mset ?ps1"
    by simp
  also have "mset ?ps1 =
      mset (filter (\<lambda>p. \<forall>m \<in> set rest. \<not> distSq (hd (segments m)) p < pelletRadiusSq) ?ps1)
        + (\<Sum>k<length rest. mset (pelletsEatenBy rest ?ps1 k))"
    by (rule Cons.IH)
  also have "filter (\<lambda>p. \<forall>m \<in> set rest. \<not> distSq (hd (segments m)) p < pelletRadiusSq) ?ps1
      = filter (\<lambda>p. \<forall>m \<in> set (m # rest). \<not> distSq (hd (segments m)) p < pelletRadiusSq) ps"
    by (simp add: conj_commute)
  finally have eq: "mset ps = mset (filter ?near ps) +
      (mset (filter (\<lambda>p. \<forall>m \<in> set (m # rest). \<not> distSq (hd (segments m)) p < pelletRadiusSq) ps)
        + (\<Sum>k<length rest. mset (pelletsEatenBy rest ?ps1 k)))" .
  have "(\<Sum>k<length (m # rest). mset (pelletsEatenBy (m # rest) ps k))
      = mset (filter ?near ps) + (\<Sum>k<length rest. mset (pelletsEatenBy rest ?ps1 k))"
    by (simp only: list.size add_Suc_right add_0_right sum.lessThan_Suc_shift shift first)
  with eq show ?case by (simp only: ac_simps)
qed

lemma segmentsHit_iff: "segmentsHit head rSq segs \<longleftrightarrow> (\<exists>seg \<in> set segs. distSq head seg < rSq)"
  by (induction segs) auto

lemma snakesHit_iff:
  "snakesHit snakeId head rSq ss \<longleftrightarrow>
     (\<exists>t \<in> set ss. sid t \<noteq> snakeId \<and> (\<exists>seg \<in> set (segments t). distSq head seg < rSq))"
  by (induction ss) (auto simp: segmentsHit_iff)

lemma headHitsBody_iff:
  "headHitsBody snakeId head allSnakes \<longleftrightarrow>
     (\<exists>t \<in> set allSnakes. sid t \<noteq> snakeId \<and>
        (\<exists>seg \<in> set (segments t). distSq head seg < (HEAD_RADIUS + BODY_RADIUS)\<^sup>2))"
  by (simp add: headHitsBody_def Let_def snakesHit_iff power2_eq_square)

lemma set_setAdd: "set (setAdd v vs) = insert v (set vs)"
  by (auto simp: setAdd_def)

lemma distinct_setAdd: "distinct vs \<Longrightarrow> distinct (setAdd v vs)"
  by (simp add: setAdd_def)

lemma set_collectDead:
  "set (collectDead b allSnakes ss dead) =
     set dead \<union> {sid s |s. s \<in> set ss \<and>
        (hitWall (hd (segments s)) b \<or> headHitsBody (sid s) (hd (segments s)) allSnakes)}"
  by (induction ss arbitrary: dead) (auto simp: Let_def set_setAdd)

lemma distinct_collectDead: "distinct dead \<Longrightarrow> distinct (collectDead b allSnakes ss dead)"
  by (induction ss arbitrary: dead) (simp_all add: Let_def distinct_setAdd)

lemma dropDead_eq:
  "dropDead stateSnakes ids ps =
     ps @ concat (map (\<lambda>i. case find (\<lambda>s. sid s = i) stateSnakes of
                              None \<Rightarrow> [] | Some dead \<Rightarrow> deathPellets dead) ids)"
  by (induction ids arbitrary: ps) (simp_all split: option.splits)

section \<open>The structure of a tick\<close>

lemma moveAll_Inr:
  "moveAll dt ta ss = Inr moved \<Longrightarrow>
   list_all2 (\<lambda>s s'. \<exists>t. targetOf ta s = Num t \<and> moveSnake s dt t = Inr s') ss moved"
proof (induction ss arbitrary: moved)
  case Nil
  then show ?case by simp
next
  case (Cons s rest)
  then show ?case by (auto split: sum.splits jsnumber.splits list.splits error.splits)
qed

lemma moveAll_total:
  "(\<exists>moved. moveAll dt ta ss = Inr moved) \<longleftrightarrow>
     (\<forall>s \<in> set ss. segments s \<noteq> [] \<and> targetOf ta s \<noteq> NaN)"
proof (induction ss)
  case Nil
  then show ?case by simp
next
  case (Cons s rest)
  show ?case
  proof (cases "targetOf ta s")
    case NaN
    then show ?thesis by (simp split: list.splits sum.splits error.splits)
  next
    case (Num t)
    show ?thesis
    proof (cases "segments s")
      case Nil
      with Num show ?thesis by (simp add: moveSnake_def)
    next
      case (Cons head others)
      then obtain s' where "moveSnake s dt t = Inr s'"
        by (simp add: moveSnake_def Let_def)
      with Num Cons Cons.IH show ?thesis by (auto split: sum.splits)
    qed
  qed
qed

lemma tick_steps:
  assumes "moveAll dt ta (snakes st) = Inr moved"
    and "consumeAll moved (pellets st) = (grown, ps)"
    and "collectDead (bounds st) grown grown [] = dead"
  shows "tick st dt ta rnd =
     Inr \<lparr>state = st\<lparr>snakes := filter (\<lambda>s. sid s \<notin> set dead) grown,
              pellets := dropDead (snakes st) dead ps @
                 (if nextPelletSpawn st - dt \<le> 0 then [spawnPellet st rnd] else []),
              nextPelletSpawn := (if nextPelletSpawn st - dt \<le> 0 then PELLET_SPAWN_INTERVAL
                                  else nextPelletSpawn st - dt)\<rparr>,
           deadIds = dead\<rparr>"
  using assms by (simp add: tick_def Let_def spawnPellet_def)

lemma tick_Inr:
  assumes "tick st dt ta rnd = Inr r"
  obtains moved grown ps where "moveAll dt ta (snakes st) = Inr moved"
    and "consumeAll moved (pellets st) = (grown, ps)"
    and "deadIds r = collectDead (bounds st) grown grown []"
    and "snakes (state r) = filter (\<lambda>s. sid s \<notin> set (deadIds r)) grown"
    and "pellets (state r) = dropDead (snakes st) (deadIds r) ps @
           (if nextPelletSpawn st - dt \<le> 0 then [spawnPellet st rnd] else [])"
proof (cases "moveAll dt ta (snakes st)")
  case (Inl e)
  with assms show ?thesis by (simp add: tick_def Let_def)
next
  case (Inr moved)
  obtain grown ps where c: "consumeAll moved (pellets st) = (grown, ps)"
    by (cases "consumeAll moved (pellets st)")
  from tick_steps [OF Inr c refl, of rnd] assms
  have "r = \<lparr>state = st\<lparr>snakes := filter (\<lambda>s. sid s \<notin> set (collectDead (bounds st) grown grown [])) grown,
              pellets := dropDead (snakes st) (collectDead (bounds st) grown grown []) ps @
                 (if nextPelletSpawn st - dt \<le> 0 then [spawnPellet st rnd] else []),
              nextPelletSpawn := (if nextPelletSpawn st - dt \<le> 0 then PELLET_SPAWN_INTERVAL
                                  else nextPelletSpawn st - dt)\<rparr>,
           deadIds = collectDead (bounds st) grown grown []\<rparr>"
    by simp
  then show ?thesis using Inr c by (intro that [of moved grown ps]) simp_all
qed

lemma normalizeAngle_zero: "normalizeAngle 0 = 0"
  by (simp add: normalizeAngle_id)

lemma followStep_axis:
  "1 / 1000000 < a - c \<Longrightarrow>
   followStep 0 \<lparr>px = a, py = b\<rparr> \<lparr>px = c, py = b\<rparr> = \<lparr>px = a - SEGMENT_SPACING, py = b\<rparr>"
  by (simp add: followStep_def hypot_axis Let_def field_simps)

lemma exSnake_move:
  "moveSnake exSnake (1 / 60) 0 =
     Inr (exSnake\<lparr>segments := [\<lparr>px = 102, py = 100\<rparr>, \<lparr>px = 94, py = 100\<rparr>]\<rparr>)"
  by (simp add: moveSnake_def exSnake_def normalizeAngle_zero Let_def followStep_axis
      DEFAULT_SPEED_def TURN_SPEED_def SEGMENT_SPACING_def)

lemma exState_moveAll:
  "moveAll (1 / 60) Map.empty (snakes exState) =
      Inr [exSnake\<lparr>segments := [\<lparr>px = 102, py = 100\<rparr>, \<lparr>px = 94, py = 100\<rparr>]\<rparr>]"
proof -
  have "targetOf Map.empty exSnake = Num 0"
    by (simp add: targetOf_def exSnake_def objectPrototypeKeys_def)
  then show ?thesis by (simp add: exState_def exSnake_move)
qed

lemma exState_consumeAll:
  "consumeAll [exSnake\<lparr>segments := [\<lparr>px = 102, py = 100\<rparr>, \<lparr>px = 94, py = 100\<rparr>]\<rparr>] (pellets exState) =
      ([exSnake\<lparr>segments := [\<lparr>px = 102, py = 100\<rparr>, \<lparr>px = 94, py = 100\<rparr>, \<lparr>px = 94, py = 100\<rparr>]\<rparr>], [])"
  by (simp add: exState_def eatAndGrow_eq exPellet_def distSq_def pelletRadiusSq_def PELLET_RADIUS_def
        HEAD_RADIUS_def PELLET_VALUE_def)

lemma exState_collectDead:
  "collectDead (bounds exState)
     [exSnake\<lparr>segments := [\<lparr>px = 102, py = 100\<rparr>, \<lparr>px = 94, py = 100\<rparr>, \<lparr>px = 94, py = 100\<rparr>]\<rparr>]
     [exSnake\<lparr>segments := [\<lparr>px = 102, py = 100\<rparr>, \<lparr>px = 94, py = 100\<rparr>, \<lparr>px = 94, py = 100\<rparr>]\<rparr>] [] = []"
  by (simp add: exState_def hitWall_def headHitsBody_def HEAD_RADIUS_def)

lemma exState_tick: "tick exState (1 / 60) Map.empty (0, 0) = Inr exResult"
proof -
  have "nextPelletSpawn exState - 1 / 60 = 119 / 60" by (simp add: exState_def)
  then show ?thesis
    by (simp add: tick_steps [OF exState_moveAll exState_consumeAll exState_collectDead] exResult_def)
qed

section \<open>Facts shared by the properties\<close>

lemma moveSnake_keeps_heading:
  assumes "moveSnake s dt (angle s) = Inr s'" and "- pi \<le> angle s" and "angle s \<le> pi"
  shows "angle s' = angle s"
proof -
  from assms(1) obtain head rest where
    "angle s' = normalizeAngle (angle s + normalizeAngle (angle s - angle s) * min 1 (turnSpeed s * dt))"
    by (rule moveSnake_Inr)
  then show ?thesis using assms(2,3) by (simp add: normalizeAngle_zero normalizeAngle_id)
qed

lemma moveAll_cong:
  "(\<forall>s \<in> set ss. ta' (sid s) = ta (sid s)) \<Longrightarrow> moveAll dt ta' ss = moveAll dt ta ss"
proof (induction ss)
  case Nil
  then show ?case by simp
next
  case (Cons s rest)
  then have "targetOf ta' s = targetOf ta s" and "moveAll dt ta' rest = moveAll dt ta rest"
    by (simp_all add: targetOf_def)
  then show ?case by (simp only: moveAll.simps)
qed

lemma consumeAll_fields:
  assumes "consumeAll ms ps = (grown, ps')"
  shows "list_all2 (\<lambda>m g. sid g = sid m \<and> angle g = angle m \<and> speed g = speed m \<and>
            turnSpeed g = turnSpeed m \<and> isPlayer g = isPlayer m \<and>
            (segments m \<noteq> [] \<longrightarrow> hd (segments g) = hd (segments m))) ms grown"
proof -
  have len: "length ms = length grown" using consumeAll_length [OF assms] by simp
  show ?thesis
    unfolding list_all2_conv_all_nth
  proof (rule conjI [OF len], rule allI, rule impI)
    fix k assume "k < length ms"
    from consumeAll_nth [OF assms this]
    have "sid (grown ! k) = sid (ms ! k) \<and> angle (grown ! k) = angle (ms ! k) \<and>
      speed (grown ! k) = speed (ms ! k) \<and> turnSpeed (grown ! k) = turnSpeed (ms ! k) \<and>
      isPlayer (grown ! k) = isPlayer (ms ! k) \<and>
      (segments (ms ! k) \<noteq> [] \<longrightarrow> hd (segments (grown ! k)) = hd (segments (ms ! k)))"
      by (simp add: hd_append)
    then show "sid (grown ! k) = sid (ms ! k) \<and> angle (grown ! k) = angle (ms ! k) \<and>
      speed (grown ! k) = speed (ms ! k) \<and> turnSpeed (grown ! k) = turnSpeed (ms ! k) \<and>
      isPlayer (grown ! k) = isPlayer (ms ! k) \<and>
      (segments (ms ! k) \<noteq> [] \<longrightarrow> hd (segments (grown ! k)) = hd (segments (ms ! k)))" .
  qed
qed

text \<open>The arrays after the move and after the growth are determined by the input.\<close>

lemma pin_grown:
  assumes "\<exists>moved grown ps. moveAll dt ta ss = Inr moved \<and> consumeAll moved pl = (grown, ps) \<and> P moved grown ps"
    and "moveAll dt ta ss = Inr m0" and "consumeAll m0 pl = (g0, p0)"
  shows "\<exists>moved grown ps. moveAll dt ta ss = Inr moved \<and> consumeAll moved pl = (grown, ps) \<and>
     grown = g0 \<and> P moved grown ps"
  using assms by auto

lemma sum_list_Nats:
  "(\<forall>p \<in> set xs. f p \<in> \<nat>) \<Longrightarrow> sum_list (map f xs) \<in> (\<nat> :: real set)"
  by (induction xs) simp_all

section \<open>The concrete collision\<close>

lemma duelA_move:
  "moveSnake duelA (1 / 60) 0 =
     Inr (duelA\<lparr>segments := [\<lparr>px = 102, py = 100\<rparr>, \<lparr>px = 94, py = 100\<rparr>, \<lparr>px = 86, py = 100\<rparr>,
                 \<lparr>px = 78, py = 100\<rparr>, \<lparr>px = 70, py = 100\<rparr>]\<rparr>)"
  by (simp add: moveSnake_def duelA_def normalizeAngle_zero Let_def followStep_axis
      DEFAULT_SPEED_def TURN_SPEED_def SEGMENT_SPACING_def)

lemma duelB_move:
  "moveSnake duelB (1 / 60) 0 = Inr (duelB\<lparr>segments := [\<lparr>px = 112, py = 100\<rparr>]\<rparr>)"
  by (simp add: moveSnake_def duelB_def normalizeAngle_zero Let_def
      DEFAULT_SPEED_def TURN_SPEED_def)

lemma duel_moveAll: "moveAll (1 / 60) Map.empty (snakes duelState) = Inr duelMoved"
proof -
  have "targetOf Map.empty duelA = Num 0" "targetOf Map.empty duelB = Num 0"
    by (simp_all add: targetOf_def duelA_def duelB_def objectPrototypeKeys_def)
  then show ?thesis by (simp add: duelState_def duelA_move duelB_move duelMoved_def)
qed

lemma duel_consumeAll: "consumeAll duelMoved (pellets duelState) = (duelMoved, [])"
  by (simp add: duelState_def duelMoved_def eatAndGrow_eq)

lemma duel_collectDead:
  "collectDead (bounds duelState) duelMoved duelMoved [] = [''player'', ''snake-1'']"
  by (simp add: duelState_def duelMoved_def hitWall_def headHitsBody_def HEAD_RADIUS_def
      BODY_RADIUS_def duelA_def duelB_def distSq_def setAdd_def)

lemma duelA_deathPellets:
  "deathPellets duelA = [\<lparr>px = 100, py = 100, pvalue = 1\<rparr>, \<lparr>px = 84, py = 100, pvalue = 1\<rparr>]"
proof -
  have "[0..<nat 2] = [0, 1]" by (simp add: upt_rec)
  then show ?thesis
    by (simp add: deathPellets_def duelA_def DEATH_PELLET_FRACTION_def PELLET_VALUE_def Let_def)
qed

lemma duelB_deathPellets: "deathPellets duelB = [\<lparr>px = 110, py = 100, pvalue = 1\<rparr>]"
  by (simp add: deathPellets_def duelB_def DEATH_PELLET_FRACTION_def PELLET_VALUE_def Let_def)

lemma duel_tick: "tick duelState (1 / 60) Map.empty (0, 0) = Inr duelResult"
proof -
  have t: "nextPelletSpawn duelState - 1 / 60 = 119 / 60" by (simp add: duelState_def)
  have f: "find (\<lambda>s. sid s = ''player'') (snakes duelState) = Some duelA"
    "find (\<lambda>s. sid s = ''snake-1'') (snakes duelState) = Some duelB"
    by (simp_all add: duelState_def duelA_def duelB_def)
  have al: "filter (\<lambda>s. sid s \<noteq> ''player'' \<and> sid s \<noteq> ''snake-1'') duelMoved = []"
    by (simp add: duelMoved_def duelA_def duelB_def)
  show ?thesis
    by (simp add: tick_steps [OF duel_moveAll duel_consumeAll duel_collectDead] duelResult_def
        t f al duelA_deathPellets duelB_deathPellets)
qed

section \<open>Further concrete ticks\<close>

lemma distSq_headTouches: "distSq h seg < (HEAD_RADIUS + BODY_RADIUS)\<^sup>2 \<longleftrightarrow> headTouches h seg"
  by (simp add: distSq_def headTouches_def Let_def power2_eq_square)

lemma hitWall_headAtWall: "hitWall h b \<longleftrightarrow> headAtWall b h"
  by (auto simp: hitWall_def headAtWall_def)

lemma wall_moveAll:
  "moveAll (1 / 60) Map.empty (snakes wallState) = Inr [wallSnake\<lparr>segments := [\<lparr>px = 7, py = 100\<rparr>]\<rparr>]"
proof -
  have t: "targetOf Map.empty wallSnake = Num 0"
    by (simp add: targetOf_def wallSnake_def exSnake_def objectPrototypeKeys_def)
  have "moveSnake wallSnake (1 / 60) 0 = Inr (wallSnake\<lparr>segments := [\<lparr>px = 7, py = 100\<rparr>]\<rparr>)"
    by (simp add: moveSnake_def wallSnake_def exSnake_def normalizeAngle_zero Let_def
        DEFAULT_SPEED_def TURN_SPEED_def)
  then show ?thesis by (simp add: wallState_def t)
qed

lemma wall_consumeAll:
  "consumeAll [wallSnake\<lparr>segments := [\<lparr>px = 7, py = 100\<rparr>]\<rparr>] (pellets wallState) =
     ([wallSnake\<lparr>segments := [\<lparr>px = 7, py = 100\<rparr>]\<rparr>], [])"
  by (simp add: wallState_def eatAndGrow_eq)

lemma wall_collectDead:
  "collectDead (bounds wallState) [wallSnake\<lparr>segments := [\<lparr>px = 7, py = 100\<rparr>]\<rparr>]
     [wallSnake\<lparr>segments := [\<lparr>px = 7, py = 100\<rparr>]\<rparr>] [] = [''player'']"
  by (simp add: wallState_def exState_def hitWall_def HEAD_RADIUS_def setAdd_def wallSnake_def exSnake_def)

lemma wall_tick: "tick wallState (1 / 60) Map.empty (0, 0) = Inr wallResult"
proof -
  have t: "nextPelletSpawn wallState - 1 / 60 = 119 / 60" by (simp add: wallState_def exState_def)
  have f: "find (\<lambda>s. sid s = ''player'') (snakes wallState) = Some wallSnake"
    by (simp add: wallState_def wallSnake_def exSnake_def)
  have al: "sid wallSnake = ''player''"
    by (simp add: wallSnake_def exSnake_def)
  have d: "deathPellets wallSnake = [\<lparr>px = 5, py = 100, pvalue = 1\<rparr>]"
    by (simp add: deathPellets_def wallSnake_def exSnake_def DEATH_PELLET_FRACTION_def PELLET_VALUE_def Let_def)
  show ?thesis
    by (simp add: tick_steps [OF wall_moveAll wall_consumeAll wall_collectDead] wallResult_def
        t f al d)
qed

lemma feast_moveAll: "moveAll (1 / 60) Map.empty (snakes feastState) = Inr feastMoved"
proof -
  have t: "targetOf Map.empty feastA = Num 0" "targetOf Map.empty feastB = Num 0"
    by (simp_all add: targetOf_def feastA_def feastB_def exSnake_def duelB_def objectPrototypeKeys_def)
  have a: "moveSnake feastA (1 / 60) 0 = Inr (feastA\<lparr>segments := [\<lparr>px = 100, py = 100\<rparr>]\<rparr>)"
    by (simp add: moveSnake_def feastA_def exSnake_def normalizeAngle_zero Let_def
        DEFAULT_SPEED_def TURN_SPEED_def)
  have b: "moveSnake feastB (1 / 60) 0 = Inr (feastB\<lparr>segments := [\<lparr>px = 100, py = 130\<rparr>]\<rparr>)"
    by (simp add: moveSnake_def feastB_def duelB_def normalizeAngle_zero Let_def
        DEFAULT_SPEED_def TURN_SPEED_def)
  show ?thesis by (simp add: feastState_def t a b feastMoved_def)
qed

lemma feast_consumeAll:
  "consumeAll feastMoved (pellets feastState) = (feastGrown, [\<lparr>px = 500, py = 500, pvalue = 1\<rparr>])"
  by (simp add: feastState_def feastMoved_def feastGrown_def eatAndGrow_eq distSq_def
      pelletRadiusSq_def PELLET_RADIUS_def HEAD_RADIUS_def)

lemma feast_collectDead: "collectDead (bounds feastState) feastGrown feastGrown [] = []"
  by (simp add: feastState_def feastGrown_def hitWall_def headHitsBody_def HEAD_RADIUS_def
      BODY_RADIUS_def feastA_def feastB_def exSnake_def duelB_def distSq_def)

lemma feast_tick: "tick feastState (1 / 60) Map.empty (0, 0) = Inr feastResult"
proof -
  have t: "nextPelletSpawn feastState - 1 / 60 = 119 / 60" by (simp add: feastState_def)
  show ?thesis
    by (simp add: tick_steps [OF feast_moveAll feast_consumeAll feast_collectDead] feastResult_def t)
qed

lemma proto_target: "targetOf Map.empty protoSnake = NaN"
  by (simp add: targetOf_def protoSnake_def objectPrototypeKeys_def)

lemma proto_tick: "tick protoState (1 / 60) Map.empty (0, 0) = Inl NotANumber"
  by (simp add: tick_def protoState_def proto_target) (simp add: protoSnake_def turnSnake_def)

section \<open>The death drop in the specification's terms\<close>

lemma deathPellets_sampled:
  assumes "segments d \<noteq> []"
  shows "deathPellets d = sampledDrop (segments d)"
proof -
  define n where "n = length (segments d)"
  define count where "count = max 1 (nat \<lfloor>DEATH_PELLET_FRACTION * real n\<rfloor>)"
  define step where "step = max 1 (n div count)"
  have npos: "0 < n" using assms by (simp add: n_def)
  have c: "max 1 \<lfloor>real_of_int (int n) * DEATH_PELLET_FRACTION\<rfloor> = int count"
    by (simp add: count_def mult.commute)
  have "\<lfloor>real_of_int (int n) / real_of_int (int count)\<rfloor> = int n div int count"
    by (rule floor_divide_of_int_eq)
  also have "\<dots> = int (n div count)" by (simp add: zdiv_int)
  finally have "max 1 \<lfloor>real_of_int (int n) / real_of_int (int count)\<rfloor> = max (int 1) (int (n div count))"
    by simp
  also have "\<dots> = int step" by (simp only: step_def of_nat_max)
  finally have s: "max 1 \<lfloor>real_of_int (int n) / real_of_int (int count)\<rfloor> = int step" .
  have n1: "int n - 1 = int (n - 1)" using npos by (simp add: of_nat_diff)
  have idx: "nat (min (int j * int step) (int n - 1)) = min (j * step) (n - 1)" for j
  proof -
    have "min (int j * int step) (int n - 1) = int (min (j * step) (n - 1))"
      by (simp only: n1 of_nat_mult [symmetric] of_nat_min)
    then show ?thesis by (simp only: nat_int)
  qed
  show ?thesis
    unfolding deathPellets_def sampledDrop_def Let_def n_def [symmetric] c
      count_def [symmetric] s step_def [symmetric]
    by (simp add: idx)
qed

section \<open>Identities through the phases\<close>

lemma moveAll_sids: "moveAll dt ta ss = Inr moved \<Longrightarrow> map sid moved = map sid ss"
proof -
  assume "moveAll dt ta ss = Inr moved"
  then have "list_all2 (\<lambda>s s'. \<exists>t. targetOf ta s = Num t \<and> moveSnake s dt t = Inr s') ss moved"
    by (rule moveAll_Inr)
  then have "list_all2 (\<lambda>s s'. sid s' = sid s) ss moved"
  proof (rule list_all2_mono)
    fix s s' assume "\<exists>t. targetOf ta s = Num t \<and> moveSnake s dt t = Inr s'"
    then obtain t where "moveSnake s dt t = Inr s'" by blast
    then show "sid s' = sid s" by (rule moveSnake_Inr)
  qed
  then show ?thesis
    by (simp add: list_all2_conv_all_nth list_eq_iff_nth_eq)
qed

lemma consumeAll_sids: "consumeAll ms ps = (grown, ps') \<Longrightarrow> map sid grown = map sid ms"
proof -
  assume "consumeAll ms ps = (grown, ps')"
  then have "list_all2 (\<lambda>m g. sid g = sid m) ms grown"
    by (rule list_all2_mono [OF consumeAll_fields]) simp
  then show ?thesis
    by (simp add: list_all2_conv_all_nth list_eq_iff_nth_eq)
qed

lemma dead_iff:
  assumes "deadIds r = collectDead b grown grown []"
  shows "i \<in> set (deadIds r) \<longleftrightarrow>
     (\<exists>s \<in> set grown. sid s = i \<and>
        (px (hd (segments s)) - HEAD_RADIUS < 0 \<or> py (hd (segments s)) - HEAD_RADIUS < 0 \<or>
         px (hd (segments s)) + HEAD_RADIUS > width b \<or>
         py (hd (segments s)) + HEAD_RADIUS > height b \<or>
         (\<exists>t \<in> set grown. sid t \<noteq> sid s \<and>
            (\<exists>seg \<in> set (segments t).
               distSq (hd (segments s)) seg < (HEAD_RADIUS + BODY_RADIUS)\<^sup>2))))"
proof -
  have "i \<in> set (deadIds r) \<longleftrightarrow>
      (\<exists>s \<in> set grown. sid s = i \<and>
         (hitWall (hd (segments s)) b \<or> headHitsBody (sid s) (hd (segments s)) grown))"
    unfolding assms set_collectDead by auto
  then show ?thesis
    by (simp only: headHitsBody_iff hitWall_def disj_assoc)
qed

section \<open>Steering targets when the tick returns numbers\<close>

text \<open>
  When \<open>tick\<close> returns a state of numbers, an organism whose id has no entry in
  \<open>targetAngles\<close> keeps a heading that lies in \<open>[-\<pi>, \<pi>]\<close>.
\<close>

lemma missing_target_keeps_heading:
  assumes "tick st dt ta rnd = Inr r"
  shows "\<exists>moved grown ps.
          moveAll dt ta (snakes st) = Inr moved \<and>
          consumeAll moved (pellets st) = (grown, ps) \<and>
          snakes (state r) = filter (\<lambda>s. sid s \<notin> set (deadIds r)) grown \<and>
          list_all2 (\<lambda>s g. sid g = sid s \<and>
                (ta (sid s) = None \<and> - pi \<le> angle s \<and> angle s \<le> pi \<longrightarrow> angle g = angle s))
            (snakes st) grown"
proof -
  from assms obtain moved grown ps where mv: "moveAll dt ta (snakes st) = Inr moved"
    and eat: "consumeAll moved (pellets st) = (grown, ps)"
    and alive: "snakes (state r) = filter (\<lambda>s. sid s \<notin> set (deadIds r)) grown"
    by (rule tick_Inr)
  have a: "list_all2 (\<lambda>s m. sid m = sid s \<and>
                (ta (sid s) = None \<and> - pi \<le> angle s \<and> angle s \<le> pi \<longrightarrow> angle m = angle s))
            (snakes st) moved"
  proof (rule list_all2_mono [OF moveAll_Inr [OF mv]])
    fix s m assume "\<exists>t. targetOf ta s = Num t \<and> moveSnake s dt t = Inr m"
    then obtain t where t: "targetOf ta s = Num t" and m: "moveSnake s dt t = Inr m" by blast
    from m have "sid m = sid s" by (rule moveSnake_Inr)
    moreover have "angle m = angle s" if "ta (sid s) = None" "- pi \<le> angle s" "angle s \<le> pi"
    proof -
      from that(1) t have "t = angle s" by (simp add: targetOf_def split: if_splits)
      with m have "moveSnake s dt (angle s) = Inr m" by simp
      then show ?thesis using that(2,3) by (rule moveSnake_keeps_heading)
    qed
    ultimately show "sid m = sid s \<and>
        (ta (sid s) = None \<and> - pi \<le> angle s \<and> angle s \<le> pi \<longrightarrow> angle m = angle s)"
      by simp
  qed
  have b: "list_all2 (\<lambda>m g. sid g = sid m \<and> angle g = angle m) moved grown"
    by (rule list_all2_mono [OF consumeAll_fields [OF eat]]) simp
  have "list_all2 (\<lambda>s g. sid g = sid s \<and>
                (ta (sid s) = None \<and> - pi \<le> angle s \<and> angle s \<le> pi \<longrightarrow> angle g = angle s))
            (snakes st) grown"
    by (rule list_all2_trans [OF _ a b]) simp
  with mv eat alive show ?thesis by (intro exI conjI)
qed

text \<open>Entries of \<open>targetAngles\<close> under ids that no organism of the state carries are not read.\<close>

lemma unknown_targets_ignored:
  assumes "\<forall>s \<in> set (snakes st). ta' (sid s) = ta (sid s)"
  shows "tick st dt ta' rnd = tick st dt ta rnd"
proof -
  from assms have "moveAll dt ta' (snakes st) = moveAll dt ta (snakes st)" by (rule moveAll_cong)
  then show ?thesis by (simp add: tick_def)
qed


section \<open>Dead ids belong to the input state\<close>

lemma dead_ids_known:
  assumes mv: "moveAll dt ta ss = Inr moved"
    and eat: "consumeAll moved ps0 = (grown, ps)"
    and i: "i \<in> set (collectDead b grown grown [])"
  shows "\<exists>d \<in> set ss. find (\<lambda>s. sid s = i) ss = Some d \<and> sid d = i \<and> segments d \<noteq> []"
proof -
  from i have "i \<in> sid ` set grown" unfolding set_collectDead by auto
  then have "i \<in> set (map sid grown)" by simp
  then have "i \<in> set (map sid ss)"
    by (simp only: consumeAll_sids [OF eat] moveAll_sids [OF mv])
  then have "\<exists>s \<in> set ss. sid s = i" by auto
  then have "find (\<lambda>s. sid s = i) ss \<noteq> None" by (auto simp: find_None_iff)
  then obtain d where d: "find (\<lambda>s. sid s = i) ss = Some d" by blast
  then have "d \<in> set ss" "sid d = i"
    by (auto simp: find_Some_iff)
  moreover from mv have "\<forall>s \<in> set ss. segments s \<noteq> []"
    using moveAll_total [of dt ta ss] by blast
  ultimately show ?thesis using d by blast
qed

section \<open>Heading change and the steering example\<close>

lemma abs_shift_2pi:
  assumes x: "\<bar>x\<bar> \<le> pi" and lo: "- pi \<le> x + 2 * pi * of_int n" and hi: "x + 2 * pi * of_int n \<le> pi"
  shows "\<bar>x + 2 * pi * of_int n\<bar> = \<bar>x\<bar>"
proof -
  have "2 * pi * of_int n \<le> 2 * pi" using x hi by linarith
  then have "pi * of_int n \<le> pi * 1" by simp
  then have "(of_int n :: real) \<le> 1" by (simp only: mult_le_cancel_left_pos pi_gt_zero)
  then have n1: "n \<le> 1" by simp
  have "- (2 * pi) \<le> 2 * pi * of_int n" using x lo by linarith
  then have "pi * (- 1) \<le> pi * of_int n" by simp
  then have "(- 1 :: real) \<le> of_int n" by (simp only: mult_le_cancel_left_pos pi_gt_zero)
  then have n2: "- 1 \<le> n" by linarith
  from n1 n2 consider "n = - 1" | "n = 0" | "n = 1" by linarith
  then show ?thesis
  proof cases
    case 1
    with lo x have "x = pi" by simp
    with 1 show ?thesis by simp
  next
    case 2
    then show ?thesis by simp
  next
    case 3
    with hi x have "x = - pi" by simp
    with 3 show ?thesis by simp
  qed
qed

lemma heading_change:
  assumes k0: "0 \<le> k" and k1: "k \<le> 1"
  shows "\<bar>normalizeAngle (normalizeAngle (a + normalizeAngle (t - a) * k) - a)\<bar>
           = \<bar>normalizeAngle (t - a)\<bar> * k"
proof -
  define d where "d = normalizeAngle (t - a)"
  define x where "x = d * k"
  have "\<bar>d\<bar> \<le> pi" using normalizeAngle_range [of "t - a"] by (simp add: d_def abs_le_iff)
  then have "\<bar>d\<bar> * k \<le> pi * 1" using k0 k1 by (intro mult_mono) simp_all
  then have xb: "\<bar>x\<bar> \<le> pi" using k0 by (simp add: x_def abs_mult)
  obtain i :: int where i: "normalizeAngle (a + x) = a + x + 2 * pi * of_int i"
    using normalizeAngle_shift by blast
  obtain j :: int where j: "normalizeAngle (normalizeAngle (a + x) - a)
      = normalizeAngle (a + x) - a + 2 * pi * of_int j"
    using normalizeAngle_shift by blast
  have eq: "normalizeAngle (normalizeAngle (a + x) - a) = x + 2 * pi * of_int (i + j)"
    unfolding j unfolding i by (simp add: algebra_simps)
  have "\<bar>x + 2 * pi * of_int (i + j)\<bar> = \<bar>x\<bar>"
  proof (rule abs_shift_2pi [OF xb])
    show "- pi \<le> x + 2 * pi * of_int (i + j)"
      using normalizeAngle_range [of "normalizeAngle (a + x) - a"] by (simp only: eq)
    show "x + 2 * pi * of_int (i + j) \<le> pi"
      using normalizeAngle_range [of "normalizeAngle (a + x) - a"] by (simp only: eq)
  qed
  then have "\<bar>normalizeAngle (normalizeAngle (a + x) - a)\<bar> = \<bar>d\<bar> * k"
    using k0 by (simp only: eq) (simp add: x_def abs_mult)
  then show ?thesis by (simp only: x_def d_def)
qed

lemma moveSnake_heading_change:
  assumes "moveSnake s dt t = Inr s'" and "0 \<le> turnSpeed s * dt"
  shows "\<bar>normalizeAngle (angle s' - angle s)\<bar>
           = \<bar>normalizeAngle (t - angle s)\<bar> * min 1 (turnSpeed s * dt)"
proof -
  from assms(1) obtain head rest where
    "angle s' = normalizeAngle (angle s + normalizeAngle (t - angle s) * min 1 (turnSpeed s * dt))"
    by (rule moveSnake_Inr)
  then show ?thesis
    using assms(2) by (simp add: heading_change)
qed

lemma turn_moveAll:
  "moveAll (1 / 60) [''player'' \<mapsto> 2] (snakes turnState) =
     Inr [turnSnake\<lparr>segments := [\<lparr>px = 100 + cos (2 / 15) * 2, py = 100 + sin (2 / 15) * 2\<rparr>],
                     angle := 2 / 15\<rparr>]"
proof -
  have t: "targetOf [''player'' \<mapsto> 2] turnSnake = Num 2"
    by (simp add: targetOf_def turnSnake_def exSnake_def)
  have "(2 :: real) \<le> pi" by (rule pi_ge_two)
  then have n2: "normalizeAngle 2 = 2" by (simp add: normalizeAngle_id)
  have "(2 / 15 :: real) \<le> pi" using pi_ge_two by linarith
  then have n15: "normalizeAngle (2 / 15) = 2 / 15" by (simp add: normalizeAngle_id)
  have "moveSnake turnSnake (1 / 60) 2 =
     Inr (turnSnake\<lparr>segments := [\<lparr>px = 100 + cos (2 / 15) * 2, py = 100 + sin (2 / 15) * 2\<rparr>],
                     angle := 2 / 15\<rparr>)"
    by (simp add: moveSnake_def turnSnake_def exSnake_def Let_def n2 n15
        DEFAULT_SPEED_def TURN_SPEED_def)
  then show ?thesis by (simp add: turnState_def t)
qed

lemma turn_tick: "tick turnState (1 / 60) [''player'' \<mapsto> 2] (0, 0) = Inr turnResult"
proof -
  let ?m = "turnSnake\<lparr>segments := [\<lparr>px = 100 + cos (2 / 15) * 2, py = 100 + sin (2 / 15) * 2\<rparr>],
                     angle := 2 / 15\<rparr>"
  have eat: "consumeAll [?m] (pellets turnState) = ([?m], [])"
    by (simp add: turnState_def eatAndGrow_eq)
  note c = cos_ge_minus_one [of "2 / 15 :: real"] cos_le_one [of "2 / 15 :: real"]
    sin_ge_minus_one [of "2 / 15 :: real"] sin_le_one [of "2 / 15 :: real"]
  have wall: "\<not> hitWall \<lparr>px = 100 + cos (2 / 15) * 2, py = 100 + sin (2 / 15) * 2\<rparr>
      \<lparr>width = 3000, height = 3000\<rparr>"
    unfolding hitWall_def HEAD_RADIUS_def
    by (simp only: Point.select_convs Bounds.select_convs) (use c in arith)
  have dead: "collectDead (bounds turnState) [?m] [?m] [] = []"
    using wall by (simp add: turnState_def exState_def headHitsBody_def)
  have t: "nextPelletSpawn turnState - 1 / 60 = 119 / 60"
    by (simp add: turnState_def exState_def)
  show ?thesis
    by (simp add: tick_steps [OF turn_moveAll eat dead] turnResult_def t)
qed

section \<open>Spacing after the move\<close>

lemma moveSnake_spacing:
  assumes "moveSnake s dt t = Inr s'" and "Suc i < length (segments s')"
  shows "hypot (px (segments s' ! i) - px (segments s' ! Suc i))
               (py (segments s' ! i) - py (segments s' ! Suc i)) = SEGMENT_SPACING"
proof -
  from assms(1) obtain head :: Point and rest where seg: "segments s' =
           \<lparr>px = px head + cos (angle s') * speed s * dt, py = py head + sin (angle s') * speed s * dt\<rparr>
           # follow (angle s')
               \<lparr>px = px head + cos (angle s') * speed s * dt, py = py head + sin (angle s') * speed s * dt\<rparr>
               rest"
    by (rule moveSnake_Inr) blast
  from assms(2) show ?thesis unfolding seg by (rule follow_spacing)
qed

lemma moveSnake_length:
  assumes "moveSnake s dt t = Inr s'"
  shows "length (segments s') = length (segments s)"
proof -
  from assms obtain head rest where "segments s = head # rest" and "segments s' =
           \<lparr>px = px head + cos (angle s') * speed s * dt, py = py head + sin (angle s') * speed s * dt\<rparr>
           # follow (angle s')
               \<lparr>px = px head + cos (angle s') * speed s * dt, py = py head + sin (angle s') * speed s * dt\<rparr>
               rest"
    by (rule moveSnake_Inr) blast
  then show ?thesis by (simp add: follow_length)
qed

lemma moveAll_nth:
  assumes "moveAll dt ta ss = Inr moved" and "k < length ss"
  shows "\<exists>t. targetOf ta (ss ! k) = Num t \<and> moveSnake (ss ! k) dt t = Inr (moved ! k)"
  using moveAll_Inr [OF assms(1)] assms(2) by (simp add: list_all2_conv_all_nth)

lemma moveAll_length: "moveAll dt ta ss = Inr moved \<Longrightarrow> length moved = length ss"
  using moveAll_Inr [of dt ta ss moved] by (simp add: list_all2_conv_all_nth)

section \<open>Facts about state construction\<close>

lemma scaled_in_range:
  fixes r lo hi :: real
  assumes "0 \<le> r" "r < 1" "lo \<le> hi"
  shows "lo \<le> lo + r * (hi - lo) \<and> lo + r * (hi - lo) \<le> hi"
proof -
  have "0 \<le> r * (hi - lo)" using assms by simp
  moreover have "r * (hi - lo) \<le> 1 * (hi - lo)"
    using assms by (intro mult_right_mono) simp_all
  ultimately show ?thesis by simp
qed

lemma pickSpot_Some:
  "pickSpot minX maxX minY maxY used rs = Some (x, y, key, rs') \<Longrightarrow>
   key = spotKey x y \<and> key \<notin> used \<and> set rs' \<subseteq> set rs \<and>
   (\<exists>r1 \<in> set rs. x = minX + r1 * (maxX - minX)) \<and>
   (\<exists>r2 \<in> set rs. y = minY + r2 * (maxY - minY))"
proof (induction minX maxX minY maxY used rs rule: pickSpot.induct)
  case (1 minX maxX minY maxY used r1 r2 rs)
  show ?case
  proof (cases "spotKey (minX + r1 * (maxX - minX)) (minY + r2 * (maxY - minY)) \<in> used")
    case True
    with 1 show ?thesis by (fastforce simp: Let_def)
  next
    case False
    with "1.prems" show ?thesis by (auto simp: Let_def)
  qed
qed simp_all

lemma newSnake_fields:
  "sid (newSnake i x y ang) = (if i = 0 then ''player'' else ''snake-'' @ showNat i)"
  "isPlayer (newSnake i x y ang) \<longleftrightarrow> i = 0"
  "angle (newSnake i x y ang) = ang"
  "length (segments (newSnake i x y ang)) = INITIAL_LENGTH"
  "hd (segments (newSnake i x y ang)) = \<lparr>px = x, py = y\<rparr>"
  "k < INITIAL_LENGTH \<Longrightarrow> segments (newSnake i x y ang) ! k =
      \<lparr>px = x - cos ang * real k * SEGMENT_SPACING, py = y - sin ang * real k * SEGMENT_SPACING\<rparr>"
proof -
  have "[0..<INITIAL_LENGTH] = 0 # [1..<INITIAL_LENGTH]"
    by (simp add: INITIAL_LENGTH_def upt_rec)
  then show "hd (segments (newSnake i x y ang)) = \<lparr>px = x, py = y\<rparr>"
    by (simp add: newSnake_def initialSegments_def Let_def)
qed (simp_all add: newSnake_def initialSegments_def Let_def)

lemma buildSnakes_Some:
  "buildSnakes i n minX maxX minY maxY used rs = Some (ss, rs') \<Longrightarrow>
   length ss = n \<and> set rs' \<subseteq> set rs \<and>
   (\<forall>k < n. \<exists>x y ang. ss ! k = newSnake (i + k) x y ang \<and>
       (\<exists>r1 \<in> set rs. x = minX + r1 * (maxX - minX)) \<and>
       (\<exists>r2 \<in> set rs. y = minY + r2 * (maxY - minY)))"
proof (induction n arbitrary: i used rs ss rs')
  case 0
  then show ?case by simp
next
  case (Suc n)
  from Suc.prems obtain x y key rs1 where pick: "pickSpot minX maxX minY maxY used rs = Some (x, y, key, rs1)"
    by (auto split: option.splits)
  with Suc.prems obtain r rs2 where rs1: "rs1 = r # rs2"
    by (auto split: list.splits)
  with Suc.prems pick obtain rest rs3 where
    rec: "buildSnakes (Suc i) n minX maxX minY maxY (insert key used) rs2 = Some (rest, rs3)"
    and ss: "ss = newSnake i x y (r * 2 * pi - pi) # rest" and rs': "rs' = rs3"
    by (auto simp: Let_def split: option.splits)
  from pickSpot_Some [OF pick] have sub1: "set rs1 \<subseteq> set rs"
    and x: "\<exists>r1 \<in> set rs. x = minX + r1 * (maxX - minX)"
    and y: "\<exists>r2 \<in> set rs. y = minY + r2 * (maxY - minY)"
    by simp_all
  from sub1 rs1 have sub2: "set rs2 \<subseteq> set rs" by auto
  from Suc.IH [OF rec] have len: "length rest = n" and sub3: "set rs3 \<subseteq> set rs2"
    and each: "\<forall>k < n. \<exists>x y ang. rest ! k = newSnake (Suc i + k) x y ang \<and>
       (\<exists>r1 \<in> set rs2. x = minX + r1 * (maxX - minX)) \<and>
       (\<exists>r2 \<in> set rs2. y = minY + r2 * (maxY - minY))"
    by simp_all
  have "\<exists>x y ang. ss ! k = newSnake (i + k) x y ang \<and>
       (\<exists>r1 \<in> set rs. x = minX + r1 * (maxX - minX)) \<and>
       (\<exists>r2 \<in> set rs. y = minY + r2 * (maxY - minY))" if "k < Suc n" for k
  proof (cases k)
    case 0
    with x y show ?thesis unfolding ss by (intro exI [of _ x] exI [of _ y] exI [of _ "r * 2 * pi - pi"]) simp
  next
    case (Suc j)
    with that have "j < n" by simp
    with each obtain x' y' ang' where "rest ! j = newSnake (Suc i + j) x' y' ang'"
      and "\<exists>r1 \<in> set rs2. x' = minX + r1 * (maxX - minX)"
      and "\<exists>r2 \<in> set rs2. y' = minY + r2 * (maxY - minY)"
      by blast
    with sub2 Suc show ?thesis unfolding ss
      by (intro exI [of _ x'] exI [of _ y'] exI [of _ ang']) auto
  qed
  with len sub2 sub3 show ?case by (auto simp: ss rs')
qed

lemma buildPellets_Some:
  "buildPellets n minX maxX minY maxY rs = Some (ps, rs') \<Longrightarrow>
   length ps = n \<and>
   (\<forall>p \<in> set ps. pvalue p = PELLET_VALUE \<and>
       (\<exists>r1 \<in> set rs. px p = minX + r1 * (maxX - minX)) \<and>
       (\<exists>r2 \<in> set rs. py p = minY + r2 * (maxY - minY)))"
proof (induction n minX maxX minY maxY rs arbitrary: ps rs' rule: buildPellets.induct)
  case (1 minX maxX minY maxY rs)
  then show ?case by simp
next
  case (2 n minX maxX minY maxY r1 r2 rs)
  from "2.prems" obtain rest rs1 where rec: "buildPellets n minX maxX minY maxY rs = Some (rest, rs1)"
    and ps: "ps = \<lparr>px = minX + r1 * (maxX - minX), py = minY + r2 * (maxY - minY),
                 pvalue = PELLET_VALUE\<rparr> # rest"
    by (auto split: option.splits)
  from "2.IH" [OF rec] show ?case unfolding ps by (simp (no_asm_simp))
qed simp_all

section \<open>Returning from state construction\<close>

lemma pickSpot_skip:
  "list_all (\<lambda>(a', b'). spotKey (minX + a' * (maxX - minX)) (minY + b' * (maxY - minY)) \<in> used) rejected \<Longrightarrow>
   pickSpot minX maxX minY maxY used (concat (map (\<lambda>(a', b'). [a', b']) rejected) @ rs) =
   pickSpot minX maxX minY maxY used rs"
  by (induction rejected) (auto simp: Let_def)

lemma pickSpot_runs:
  "pickSpot minX maxX minY maxY used rs = Some (x, y, key, rs') \<Longrightarrow>
   \<exists>rejected a b. rs = concat (map (\<lambda>(a', b'). [a', b']) rejected) @ a # b # rs' \<and>
     list_all (\<lambda>(a', b'). spotKey (minX + a' * (maxX - minX)) (minY + b' * (maxY - minY)) \<in> used) rejected \<and>
     x = minX + a * (maxX - minX) \<and> y = minY + b * (maxY - minY) \<and>
     key = spotKey x y \<and> key \<notin> used"
proof (induction minX maxX minY maxY used rs rule: pickSpot.induct)
  case (1 minX maxX minY maxY used r1 r2 rs)
  show ?case
  proof (cases "spotKey (minX + r1 * (maxX - minX)) (minY + r2 * (maxY - minY)) \<in> used")
    case True
    with "1.prems" have "pickSpot minX maxX minY maxY used rs = Some (x, y, key, rs')"
      by (simp add: Let_def)
    from "1.IH" [OF refl refl refl True this] obtain rejected a b where
      "rs = concat (map (\<lambda>(a', b'). [a', b']) rejected) @ a # b # rs'"
      "list_all (\<lambda>(a', b'). spotKey (minX + a' * (maxX - minX)) (minY + b' * (maxY - minY)) \<in> used) rejected"
      "x = minX + a * (maxX - minX)" "y = minY + b * (maxY - minY)"
      "key = spotKey x y" "key \<notin> used"
      by blast
    with True show ?thesis
      by (intro exI [of _ "(r1, r2) # rejected"] exI [of _ a] exI [of _ b]) simp
  next
    case False
    with "1.prems" show ?thesis
      by (intro exI [of _ "[]"] exI [of _ r1] exI [of _ r2]) (auto simp: Let_def)
  qed
qed simp_all

lemma buildSnakes_runs:
  "acceptedRuns minX maxX minY maxY used runs \<Longrightarrow>
   \<exists>ss. buildSnakes i (length runs) minX maxX minY maxY used (runDraws runs @ ps) = Some (ss, ps) \<and>
        map (\<lambda>s. hd (segments s)) ss = runHeads minX maxX minY maxY runs \<and>
        map angle ss = runHeadings runs"
proof (induction runs arbitrary: i used)
  case Nil
  then show ?case by (simp add: runHeads_def runHeadings_def)
next
  case (Cons t runs)
  obtain rejected a b c where t: "t = (rejected, a, b, c)" by (cases t)
  let ?key = "spotKey (minX + a * (maxX - minX)) (minY + b * (maxY - minY))"
  from Cons.prems t have rej: "list_all (\<lambda>(a', b'). spotKey (minX + a' * (maxX - minX)) (minY + b' * (maxY - minY)) \<in> used) rejected"
    and fresh: "?key \<notin> used"
    and rest: "acceptedRuns minX maxX minY maxY (insert ?key used) runs"
    by (simp_all add: Let_def)
  from Cons.IH [OF rest, of "Suc i"] obtain ss where
    rec: "buildSnakes (Suc i) (length runs) minX maxX minY maxY (insert ?key used)
          (runDraws runs @ ps) = Some (ss, ps)"
    and hs: "map (\<lambda>s. hd (segments s)) ss = runHeads minX maxX minY maxY runs"
    and as: "map angle ss = runHeadings runs"
    by blast
  have pick: "pickSpot minX maxX minY maxY used (runDraws (t # runs) @ ps) =
      Some (minX + a * (maxX - minX), minY + b * (maxY - minY), ?key, c # runDraws runs @ ps)"
    using fresh by (simp add: t pickSpot_skip [OF rej] Let_def)
  have "buildSnakes i (length (t # runs)) minX maxX minY maxY used (runDraws (t # runs) @ ps) =
      Some (newSnake i (minX + a * (maxX - minX)) (minY + b * (maxY - minY)) (c * 2 * pi - pi) # ss, ps)"
    by (simp add: pick rec Let_def del: runDraws.simps)
  moreover have "map (\<lambda>s. hd (segments s)) (newSnake i (minX + a * (maxX - minX)) (minY + b * (maxY - minY)) (c * 2 * pi - pi) # ss)
      = runHeads minX maxX minY maxY (t # runs)"
    using hs by (simp add: runHeads_def t newSnake_fields)
  moreover have "map angle (newSnake i (minX + a * (maxX - minX)) (minY + b * (maxY - minY)) (c * 2 * pi - pi) # ss)
      = runHeadings (t # runs)"
    using as by (simp add: runHeadings_def t newSnake_fields)
  ultimately show ?case by blast
qed

lemma buildSnakes_draws:
  "buildSnakes i n minX maxX minY maxY used rs = Some (ss, rs') \<Longrightarrow>
   \<exists>runs. acceptedRuns minX maxX minY maxY used runs \<and> length runs = n \<and> rs = runDraws runs @ rs'"
proof (induction n arbitrary: i used rs ss rs')
  case 0
  then show ?case by (intro exI [of _ "[]"]) simp
next
  case (Suc n)
  from Suc.prems obtain x y key rs1 where pick: "pickSpot minX maxX minY maxY used rs = Some (x, y, key, rs1)"
    by (auto split: option.splits)
  with Suc.prems obtain r rs2 where rs1: "rs1 = r # rs2"
    by (auto split: list.splits)
  with Suc.prems pick obtain rest rs3 where
    rec: "buildSnakes (Suc i) n minX maxX minY maxY (insert key used) rs2 = Some (rest, rs3)"
    and rs': "rs' = rs3"
    by (auto simp: Let_def split: option.splits)
  from pickSpot_runs [OF pick] obtain rejected a b where
    rs: "rs = concat (map (\<lambda>(a', b'). [a', b']) rejected) @ a # b # rs1"
    and rej: "list_all (\<lambda>(a', b'). spotKey (minX + a' * (maxX - minX)) (minY + b' * (maxY - minY)) \<in> used) rejected"
    and xy: "x = minX + a * (maxX - minX)" "y = minY + b * (maxY - minY)"
    and key: "key = spotKey x y" "key \<notin> used"
    by blast
  from Suc.IH [OF rec] obtain runs where
    acc: "acceptedRuns minX maxX minY maxY (insert key used) runs"
    and len: "length runs = n" and rs2: "rs2 = runDraws runs @ rs3"
    by blast
  show ?case
    using acc len rej key
    by (intro exI [of _ "(rejected, a, b, r) # runs"]) (simp add: rs rs1 rs2 rs' xy Let_def)
qed

lemma buildPellets_enough:
  "2 * n \<le> length rs \<Longrightarrow> \<exists>ps rs'. buildPellets n minX maxX minY maxY rs = Some (ps, rs')"
proof (induction n minX maxX minY maxY rs rule: buildPellets.induct)
  case (1 minX maxX minY maxY rs)
  then show ?case by simp
next
  case (2 n minX maxX minY maxY r1 r2 rs)
  then have "2 * n \<le> length rs" by simp
  from "2.IH" [OF this] show ?case by auto
qed simp_all

lemma buildPellets_needs:
  "buildPellets n minX maxX minY maxY rs = Some (ps, rs') \<Longrightarrow> 2 * n \<le> length rs"
proof (induction n minX maxX minY maxY rs arbitrary: ps rs' rule: buildPellets.induct)
  case (1 minX maxX minY maxY rs)
  then show ?case by simp
next
  case (2 n minX maxX minY maxY r1 r2 rs)
  from "2.prems" obtain rest rs1 where "buildPellets n minX maxX minY maxY rs = Some (rest, rs1)"
    by (auto split: option.splits)
  from "2.IH" [OF this] show ?case by simp
qed simp_all

text \<open>The grid cells of the padded default arena: sixty by sixty.\<close>

lemma default_cell:
  fixes r :: real
  assumes "0 \<le> r" "r < 1"
  shows "\<lfloor>(40 + r * (2960 - 40)) / 50\<rfloor> \<in> {0 .. 59 :: int}"
proof -
  have "0 \<le> (40 + r * (2960 - 40)) / 50" using assms by simp
  moreover have "(40 + r * (2960 - 40)) / 50 < 60" using assms by simp
  ultimately have "0 \<le> \<lfloor>(40 + r * (2960 - 40)) / 50\<rfloor>" "\<lfloor>(40 + r * (2960 - 40)) / 50\<rfloor> < 60"
    by (simp_all add: floor_less_iff)
  then show ?thesis by simp
qed

lemma buildSnakes_cells:
  assumes "buildSnakes i n 40 2960 40 2960 used rs = Some (ss, rs')"
    and "\<forall>r \<in> set rs. 0 \<le> r \<and> r < 1"
    and "used \<subseteq> {0 .. 59} \<times> {0 .. 59}"
  shows "card used + n \<le> 3600"
  using assms
proof (induction n arbitrary: i used rs ss rs')
  case 0
  have "card used \<le> card ({0 .. 59 :: int} \<times> {0 .. 59 :: int})"
    by (rule card_mono) (use "0.prems" in simp_all)
  then show ?case by simp
next
  case (Suc n)
  from Suc.prems(1) obtain x y key rs1 where pick: "pickSpot 40 2960 40 2960 used rs = Some (x, y, key, rs1)"
    by (auto split: option.splits)
  with Suc.prems(1) obtain r rs2 where rs1: "rs1 = r # rs2"
    by (auto split: list.splits)
  with Suc.prems(1) pick obtain rest rs3 where
    rec: "buildSnakes (Suc i) n 40 2960 40 2960 (insert key used) rs2 = Some (rest, rs3)"
    by (auto simp: Let_def split: option.splits)
  from pickSpot_Some [OF pick] obtain r1 r2 where key: "key = spotKey x y" and new: "key \<notin> used"
    and sub: "set rs1 \<subseteq> set rs" and r1: "r1 \<in> set rs" "x = 40 + r1 * (2960 - 40)"
    and r2: "r2 \<in> set rs" "y = 40 + r2 * (2960 - 40)"
    by blast
  from r1 r2 Suc.prems(2) have "key \<in> {0 .. 59} \<times> {0 .. 59}"
    unfolding key spotKey_def using default_cell by blast
  with Suc.prems(3) have inside: "insert key used \<subseteq> {0 .. 59} \<times> {0 .. 59}" by simp
  from sub rs1 Suc.prems(2) have rng: "\<forall>r \<in> set rs2. 0 \<le> r \<and> r < 1" by auto
  have fin: "finite used" by (rule finite_subset [OF Suc.prems(3)]) simp
  from Suc.IH [OF rec rng inside] have "card (insert key used) + n \<le> 3600" .
  with new fin show ?case by simp
qed

section \<open>The concrete constructions\<close>

lemma createInitialState_Some:
  assumes "createInitialState options rs = Some st"
  obtains ss rs1 ps rs2 where
    "buildSnakes 0 (numBotsOf options) ARENA_PADDING (width (boundsOf options) - ARENA_PADDING)
       ARENA_PADDING (height (boundsOf options) - ARENA_PADDING) {} rs = Some (ss, rs1)"
    and "buildPellets (numPelletsOf options) ARENA_PADDING (width (boundsOf options) - ARENA_PADDING)
       ARENA_PADDING (height (boundsOf options) - ARENA_PADDING) rs1 = Some (ps, rs2)"
    and "st = \<lparr>snakes = ss, pellets = ps, bounds = boundsOf options,
              nextSnakeId = numBotsOf options, nextPelletSpawn = PELLET_SPAWN_INTERVAL\<rparr>"
  using assms by (auto simp: createInitialState_def Let_def split: option.splits)

lemma solo_create: "createInitialState soloOptions [0, 0, 1 / 2] = Some soloState"
  by (simp add: createInitialState_def soloOptions_def soloState_def boundsOf_def numBotsOf_def
      numPelletsOf_def ARENA_PADDING_def Let_def spotKey_def)

lemma pair_create:
  "createInitialState pairOptions [0, 0, 1 / 2, 1 / 2, 1 / 2, 1 / 2, 1 / 4, 1 / 4] = Some pairState"
proof -
  have sn: "buildSnakes 0 2 40 2960 40 2960 {} [0, 0, 1 / 2, 1 / 2, 1 / 2, 1 / 2, 1 / 4, 1 / 4]
      = Some ([newSnake 0 40 40 0, newSnake 1 1500 1500 0], [1 / 4, 1 / 4])"
    by (simp add: numeral_2_eq_2 Let_def spotKey_def)
  have pe: "buildPellets 1 40 2960 40 2960 [1 / 4, 1 / 4]
      = Some ([\<lparr>px = 770, py = 770, pvalue = PELLET_VALUE\<rparr>], [])"
    by simp
  have o: "numBotsOf pairOptions = 2" "numPelletsOf pairOptions = 1"
    "boundsOf pairOptions = \<lparr>width = 3000, height = 3000\<rparr>"
    by (simp_all add: numBotsOf_def numPelletsOf_def boundsOf_def pairOptions_def)
  have w: "width \<lparr>width = 3000, height = 3000\<rparr> - 40 = 2960"
    "height \<lparr>width = 3000, height = 3000\<rparr> - 40 = 2960"
    by simp_all
  show ?thesis
    unfolding createInitialState_def Let_def o ARENA_PADDING_def w sn
    by (simp only: option.case prod.case pe pairState_def)
qed

text \<open>The same call when the second organism's first spawn point falls in the player's cell.\<close>

lemma pair_create_retry:
  "createInitialState pairOptions [0, 0, 1 / 2, 0, 0, 1 / 2, 1 / 2, 1 / 2, 1 / 4, 1 / 4] = Some pairState"
proof -
  have sn: "buildSnakes 0 2 40 2960 40 2960 {} [0, 0, 1 / 2, 0, 0, 1 / 2, 1 / 2, 1 / 2, 1 / 4, 1 / 4]
      = Some ([newSnake 0 40 40 0, newSnake 1 1500 1500 0], [1 / 4, 1 / 4])"
    by (simp add: numeral_2_eq_2 Let_def spotKey_def)
  have pe: "buildPellets 1 40 2960 40 2960 [1 / 4, 1 / 4]
      = Some ([\<lparr>px = 770, py = 770, pvalue = PELLET_VALUE\<rparr>], [])"
    by simp
  have o: "numBotsOf pairOptions = 2" "numPelletsOf pairOptions = 1"
    "boundsOf pairOptions = \<lparr>width = 3000, height = 3000\<rparr>"
    by (simp_all add: numBotsOf_def numPelletsOf_def boundsOf_def pairOptions_def)
  have w: "width \<lparr>width = 3000, height = 3000\<rparr> - 40 = 2960"
    "height \<lparr>width = 3000, height = 3000\<rparr> - 40 = 2960"
    by simp_all
  show ?thesis
    unfolding createInitialState_def Let_def o ARENA_PADDING_def w sn
    by (simp only: option.case prod.case pe pairState_def)
qed

text \<open>When the construction returns, and what it then used of the draws.\<close>

lemma createInitialState_returns:
  assumes "acceptedRuns ARENA_PADDING (width (boundsOf options) - ARENA_PADDING)
             ARENA_PADDING (height (boundsOf options) - ARENA_PADDING) {} runs"
    and "length runs = numBotsOf options" and "2 * numPelletsOf options \<le> length ps"
  shows "\<exists>st. createInitialState options (runDraws runs @ ps) = Some st \<and>
           map (\<lambda>s. hd (segments s)) (snakes st) =
             runHeads ARENA_PADDING (width (boundsOf options) - ARENA_PADDING)
               ARENA_PADDING (height (boundsOf options) - ARENA_PADDING) runs \<and>
           map angle (snakes st) = runHeadings runs"
proof -
  from buildSnakes_runs [OF assms(1), of 0 ps] obtain ss where
    "buildSnakes 0 (numBotsOf options) ARENA_PADDING (width (boundsOf options) - ARENA_PADDING)
       ARENA_PADDING (height (boundsOf options) - ARENA_PADDING) {}
       (runDraws runs @ ps) = Some (ss, ps)"
    and "map (\<lambda>s. hd (segments s)) ss =
             runHeads ARENA_PADDING (width (boundsOf options) - ARENA_PADDING)
               ARENA_PADDING (height (boundsOf options) - ARENA_PADDING) runs"
    and "map angle ss = runHeadings runs"
    unfolding assms(2) by blast
  moreover from buildPellets_enough [OF assms(3)] obtain pl rs' where
    "buildPellets (numPelletsOf options) ARENA_PADDING (width (boundsOf options) - ARENA_PADDING)
       ARENA_PADDING (height (boundsOf options) - ARENA_PADDING) ps = Some (pl, rs')"
    by blast
  ultimately show ?thesis by (simp add: createInitialState_def Let_def)
qed

lemma createInitialState_draws:
  assumes "createInitialState options rs = Some st"
  shows "\<exists>runs ps.
         acceptedRuns ARENA_PADDING (width (boundsOf options) - ARENA_PADDING)
           ARENA_PADDING (height (boundsOf options) - ARENA_PADDING) {} runs \<and>
         length runs = numBotsOf options \<and> 2 * numPelletsOf options \<le> length ps \<and>
         rs = runDraws runs @ ps"
proof -
  from assms obtain ss rs1 ps rs2 where
    bs: "buildSnakes 0 (numBotsOf options) ARENA_PADDING (width (boundsOf options) - ARENA_PADDING)
       ARENA_PADDING (height (boundsOf options) - ARENA_PADDING) {} rs = Some (ss, rs1)"
    and bp: "buildPellets (numPelletsOf options) ARENA_PADDING (width (boundsOf options) - ARENA_PADDING)
       ARENA_PADDING (height (boundsOf options) - ARENA_PADDING) rs1 = Some (ps, rs2)"
    by (rule createInitialState_Some)
  from buildSnakes_draws [OF bs] obtain runs where
    "acceptedRuns ARENA_PADDING (width (boundsOf options) - ARENA_PADDING)
           ARENA_PADDING (height (boundsOf options) - ARENA_PADDING) {} runs"
    "length runs = numBotsOf options" "rs = runDraws runs @ rs1"
    by blast
  moreover from buildPellets_needs [OF bp] have "2 * numPelletsOf options \<le> length rs1" .
  ultimately show ?thesis by blast
qed

text \<open>Every draw 0: the second organism never gets a spawn point.\<close>

lemma pickSpot_zeros:
  "pickSpot 40 2960 40 2960 {(0, 0)} (replicate k 0) = None"
proof (induction k rule: less_induct)
  case (less k)
  show ?case
  proof (cases k)
    case 0
    then show ?thesis by simp
  next
    case (Suc j)
    show ?thesis
    proof (cases j)
      case 0
      with Suc show ?thesis by simp
    next
      case (Suc i)
      with \<open>k = Suc j\<close> have k: "k = Suc (Suc i)" by simp
      then have "i < k" by simp
      from less.IH [OF this] show ?thesis
        by (simp add: k Let_def spotKey_def)
    qed
  qed
qed

lemma pair_snakes_never:
  "buildSnakes 0 2 40 2960 40 2960 {} (replicate k 0) = None"
proof -
  have two: "(2 :: nat) = Suc (Suc 0)" by simp
  have three: "k = 0 \<or> k = Suc 0 \<or> k = Suc (Suc 0) \<or> (\<exists>i. k = Suc (Suc (Suc i)))"
    by presburger
  have first: "pickSpot 40 2960 40 2960 {} (0 # 0 # rs) = Some (40, 40, (0, 0), rs)" for rs
    by (simp add: Let_def spotKey_def)
  from three show ?thesis
  proof (elim disjE exE)
    assume "k = 0"
    then show ?thesis unfolding two by simp
  next
    assume "k = Suc 0"
    then show ?thesis unfolding two by simp
  next
    assume "k = Suc (Suc 0)"
    then show ?thesis unfolding two by (simp add: first del: pickSpot.simps)
  next
    fix i assume "k = Suc (Suc (Suc i))"
    then show ?thesis unfolding two by (simp add: first pickSpot_zeros del: pickSpot.simps)
  qed
qed

lemma pair_never_returns: "createInitialState pairOptions (replicate k 0) = None"
proof -
  have o: "numBotsOf pairOptions = 2" "numPelletsOf pairOptions = 1"
    "boundsOf pairOptions = \<lparr>width = 3000, height = 3000\<rparr>"
    by (simp_all add: numBotsOf_def numPelletsOf_def boundsOf_def pairOptions_def)
  have w: "width \<lparr>width = 3000, height = 3000\<rparr> - 40 = 2960"
    "height \<lparr>width = 3000, height = 3000\<rparr> - 40 = 2960"
    by simp_all
  show ?thesis
    unfolding createInitialState_def Let_def o ARENA_PADDING_def w pair_snakes_never
    by (simp only: option.case)
qed

section \<open>Totality over the reals and rounding\<close>

lemma tick_returns_over_reals:
  "(\<exists>r. tick st dt ta rnd = Inr r) \<longleftrightarrow>
     (\<forall>s \<in> set (snakes st). segments s \<noteq> [] \<and> targetOf ta s \<noteq> NaN)"
proof
  assume "\<exists>r. tick st dt ta rnd = Inr r"
  then obtain r where "tick st dt ta rnd = Inr r" ..
  then obtain moved where "moveAll dt ta (snakes st) = Inr moved" by (rule tick_Inr)
  then show "\<forall>s \<in> set (snakes st). segments s \<noteq> [] \<and> targetOf ta s \<noteq> NaN"
    using moveAll_total [of dt ta "snakes st"] by blast
next
  assume "\<forall>s \<in> set (snakes st). segments s \<noteq> [] \<and> targetOf ta s \<noteq> NaN"
  then obtain moved where mv: "moveAll dt ta (snakes st) = Inr moved"
    using moveAll_total [of dt ta "snakes st"] by blast
  obtain grown ps where "consumeAll moved (pellets st) = (grown, ps)"
    by (cases "consumeAll moved (pellets st)")
  from tick_steps [OF mv this refl] show "\<exists>r. tick st dt ta rnd = Inr r" by blast
qed

lemma followStep_divides_only_far:
  "hypot (px prev - px cur) (py prev - py cur) \<le> 1 / 1000000 \<Longrightarrow>
     followStep ang prev cur =
       \<lparr>px = px prev - cos ang * SEGMENT_SPACING, py = py prev - sin ang * SEGMENT_SPACING\<rparr>"
  by (simp add: followStep_def Let_def)

lemma toDouble_absorbs:
  "toDouble (2 ^ 60 - 2 * MATH_PI) = 2 ^ 60"
proof -
  define c :: real where "c = 2 * MATH_PI"
  define x :: real where "x = 2 ^ 60 - c"
  have c: "0 < c" "c < 64" by (simp_all add: c_def MATH_PI_def)
  have xpos: "0 < x" using c by (simp add: x_def)
  have "2 powr 59 \<le> x \<and> x < 2 powr (59 + 1)"
    using c by (simp add: x_def)
  then have e: "\<lfloor>log 2 \<bar>x\<bar>\<rfloor> = 59"
    using xpos by (simp add: floor_log_eq_powr_iff [of x 2 59])
  have u: "(2 :: real) powr of_int (59 - 52) = 128" by simp
  have q: "x / 128 = 2 ^ 53 - c / 128" by (simp add: x_def field_simps)
  have fl: "\<lfloor>x / 128\<rfloor> = 2 ^ 53 - 1"
    unfolding q using c by (intro floor_unique) simp_all
  have "x / 128 - of_int (2 ^ 53 - 1) = 1 - c / 128" unfolding q by simp
  moreover have "1 / 2 < 1 - c / 128" using c by simp
  ultimately have r: "roundNearestEven (x / 128) = 2 ^ 53"
    unfolding roundNearestEven_def Let_def fl by simp
  have "toDouble x = of_int (2 ^ 53) * 128"
    using xpos unfolding toDouble_def Let_def e u r by simp
  then show ?thesis by (simp add: x_def c_def)
qed

lemma normalizeAngle_down_fl_never:
  assumes "normalizeAngle_down_fl a = Some y"
  shows "a \<noteq> 2 ^ 60"
proof (rule normalizeAngle_down_fl.raw_induct [where P = "\<lambda>a y. a \<noteq> 2 ^ 60", OF _ assms])
  fix f :: "real \<Rightarrow> real option" and a y :: real
  assume IH: "\<And>x y. f x = Some y \<Longrightarrow> x \<noteq> 2 ^ 60"
    and step: "(if MATH_PI < a then f (toDouble (a - 2 * MATH_PI)) else Some a) = Some y"
  have big: "MATH_PI < 2 ^ 60" by (simp add: MATH_PI_def)
  show "a \<noteq> 2 ^ 60"
  proof
    assume a: "a = 2 ^ 60"
    from step big have "f (toDouble (2 ^ 60 - 2 * MATH_PI)) = Some y"
      unfolding a by (simp only: if_True)
    then have "f (2 ^ 60) = Some y" by (simp only: toDouble_absorbs)
    from IH [OF this] show False by (rule notE) (rule refl)
  qed
qed

lemma normalizeAngle_down_fl_stuck: "normalizeAngle_down_fl (2 ^ 60) = None"
proof (cases "normalizeAngle_down_fl (2 ^ 60)")
  case None
  then show ?thesis .
next
  case (Some y)
  from normalizeAngle_down_fl_never [OF this] show ?thesis by (rule notE) (rule refl)
qed

lemma normalizeAngle_fl_small:
  "- MATH_PI \<le> a \<Longrightarrow> a \<le> MATH_PI \<Longrightarrow> normalizeAngle_fl a = Some a"
  by (simp add: normalizeAngle_fl_def normalizeAngle_down_fl.simps normalizeAngle_up_fl.simps)

lemma toDouble_power_60: "toDouble (2 ^ 60) = 2 ^ 60"
proof -
  have "\<lfloor>log 2 (2 ^ 60 :: real)\<rfloor> = 60"
    by (rule floor_log_eq_powr_iff [THEN iffD2]) simp_all
  moreover have "\<bar>2 ^ 60 :: real\<bar> = 2 ^ 60" by (rule abs_of_nonneg) simp
  ultimately have e: "\<lfloor>log 2 \<bar>2 ^ 60 :: real\<bar>\<rfloor> = 60"
    by (simp only:)
  have u: "(2 :: real) powr of_int (60 - 52) = 256" by simp
  have r: "roundNearestEven (2 ^ 60 / 256) = 2 ^ 52"
    by (simp add: roundNearestEven_def Let_def)
  have "toDouble (2 ^ 60) = of_int (2 ^ 52) * 256"
    unfolding toDouble_def Let_def e u r by simp
  then show ?thesis by simp
qed

section \<open>The speed multiplier\<close>

text \<open>
  C1. \<open>tick\<close> has no fourth parameter, so the multiplier that \<open>SlitherPage\<close> passes is
  dropped and the player moves like every other organism. With
  \<open>playerSpeedMultiplier = 2\<close>, \<open>speed = 120\<close> and \<open>dt = 1/60\<close> the player's head goes from
  \<open>x = 100\<close> to \<open>x = 102\<close>: an advance of \<open>speed * dt = 2\<close>, where the claim has
  \<open>speed * m * dt = 4\<close>. The result is the result of the call with multiplier 1.
\<close>

theorem player_multiplier_dropped:
  "tickWithOptions exState (1 / 60) Map.empty \<lparr>playerSpeedMultiplier = 2\<rparr> (0, 0) = Inr exResult \<and>
   tickWithOptions exState (1 / 60) Map.empty \<lparr>playerSpeedMultiplier = 1\<rparr> (0, 0) = Inr exResult \<and>
   isPlayer (hd (snakes exState)) \<and>
   angle (hd (snakes (state exResult))) = 0 \<and>
   speed (hd (snakes exState)) * (1 / 60) = 2 \<and>
   hd (segments (hd (snakes exState))) = \<lparr>px = 100, py = 100\<rparr> \<and>
   hd (segments (hd (snakes (state exResult)))) = \<lparr>px = 102, py = 100\<rparr>"
proof -
  have "isPlayer (hd (snakes exState))"
    "angle (hd (snakes (state exResult))) = 0"
    "speed (hd (snakes exState)) * (1 / 60) = 2"
    "hd (segments (hd (snakes exState))) = \<lparr>px = 100, py = 100\<rparr>"
    "hd (segments (hd (snakes (state exResult)))) = \<lparr>px = 102, py = 100\<rparr>"
    by (simp_all add: exState_def exResult_def exSnake_def DEFAULT_SPEED_def)
  with exState_tick show ?thesis by (simp add: tickWithOptions_def)
qed

section \<open>The heading is interpolated\<close>

text \<open>
  C2. As stated the claim fails: the heading moves by the fraction
  \<open>min(1, turnSpeed * dt)\<close> of the normalized difference to the target, not by at most
  \<open>turnSpeed * dt\<close> radians. With heading 0, target 2, \<open>turnSpeed = 4\<close> and
  \<open>dt = 1/60\<close> the heading after the tick is \<open>2/15\<close>, twice \<open>turnSpeed * dt = 1/15\<close>.
\<close>

theorem heading_rate_limit_counterexample:
  "tick turnState (1 / 60) [''player'' \<mapsto> 2] (0, 0) = Inr turnResult \<and>
   angle (hd (snakes turnState)) = 0 \<and>
   angle (hd (snakes (state turnResult))) = 2 / 15 \<and>
   turnSpeed (hd (snakes turnState)) * (1 / 60) = 1 / 15 \<and>
   \<not> \<bar>normalizeAngle (angle (hd (snakes (state turnResult))) - angle (hd (snakes turnState)))\<bar>
       \<le> turnSpeed (hd (snakes turnState)) * (1 / 60)"
proof -
  have "(2 / 15 :: real) \<le> pi" using pi_ge_two by linarith
  then have n15: "normalizeAngle (2 / 15) = 2 / 15" by (simp add: normalizeAngle_id)
  have a: "angle (hd (snakes turnState)) = 0" "angle (hd (snakes (state turnResult))) = 2 / 15"
    and ts: "turnSpeed (hd (snakes turnState)) = 4"
    by (simp_all add: turnState_def turnResult_def turnSnake_def exSnake_def exState_def TURN_SPEED_def)
  have b: "turnSpeed (hd (snakes turnState)) * (1 / 60) = 1 / 15"
    by (simp add: ts)
  have "\<not> \<bar>normalizeAngle (angle (hd (snakes (state turnResult))) - angle (hd (snakes turnState)))\<bar>
       \<le> turnSpeed (hd (snakes turnState)) * (1 / 60)"
    by (simp add: a ts n15)
  with turn_tick a b show ?thesis by (intro conjI)
qed

text \<open>
  C2, amended. For every organism, when \<open>turnSpeed * dt \<ge> 0\<close>, the absolute normalized
  difference between the heading after the tick and the heading before it equals the
  absolute normalized difference between the target and the heading before, times
  \<open>min(1, turnSpeed * dt)\<close>; so it is at most \<open>\<pi> * min(1, turnSpeed * dt)\<close>, and at most
  \<open>turnSpeed * dt\<close> when the target is within one radian of the heading.
\<close>

theorem heading_interpolation:
  assumes "tick st dt ta rnd = Inr r"
  shows "\<exists>moved grown ps.
      moveAll dt ta (snakes st) = Inr moved \<and>
      consumeAll moved (pellets st) = (grown, ps) \<and>
      snakes (state r) = filter (\<lambda>s. sid s \<notin> set (deadIds r)) grown \<and>
      list_all2 (\<lambda>s g. sid g = sid s \<and>
          (\<exists>t. targetOf ta s = Num t \<and>
             (0 \<le> turnSpeed s * dt \<longrightarrow>
                \<bar>normalizeAngle (angle g - angle s)\<bar>
                  = \<bar>normalizeAngle (t - angle s)\<bar> * min 1 (turnSpeed s * dt) \<and>
                \<bar>normalizeAngle (angle g - angle s)\<bar> \<le> pi * min 1 (turnSpeed s * dt) \<and>
                (\<bar>normalizeAngle (t - angle s)\<bar> \<le> 1 \<longrightarrow>
                   \<bar>normalizeAngle (angle g - angle s)\<bar> \<le> turnSpeed s * dt))))
        (snakes st) grown"
proof -
  from assms obtain moved grown ps where mv: "moveAll dt ta (snakes st) = Inr moved"
    and eat: "consumeAll moved (pellets st) = (grown, ps)"
    and alive: "snakes (state r) = filter (\<lambda>s. sid s \<notin> set (deadIds r)) grown"
    by (rule tick_Inr)
  let ?Q = "\<lambda>s a t. 0 \<le> turnSpeed s * dt \<longrightarrow>
             \<bar>normalizeAngle (a - angle s)\<bar>
               = \<bar>normalizeAngle (t - angle s)\<bar> * min 1 (turnSpeed s * dt) \<and>
             \<bar>normalizeAngle (a - angle s)\<bar> \<le> pi * min 1 (turnSpeed s * dt) \<and>
             (\<bar>normalizeAngle (t - angle s)\<bar> \<le> 1 \<longrightarrow>
                \<bar>normalizeAngle (a - angle s)\<bar> \<le> turnSpeed s * dt)"
  let ?P = "\<lambda>s g. sid g = sid s \<and> (\<exists>t. targetOf ta s = Num t \<and> ?Q s (angle g) t)"
  have a: "list_all2 ?P (snakes st) moved"
  proof (rule list_all2_mono [OF moveAll_Inr [OF mv]])
    fix s m assume "\<exists>t. targetOf ta s = Num t \<and> moveSnake s dt t = Inr m"
    then obtain t where t: "targetOf ta s = Num t" and m: "moveSnake s dt t = Inr m" by blast
    from m have id: "sid m = sid s" by (rule moveSnake_Inr)
    have hc: "\<bar>normalizeAngle (angle m - angle s)\<bar>
               = \<bar>normalizeAngle (t - angle s)\<bar> * min 1 (turnSpeed s * dt) \<and>
             \<bar>normalizeAngle (angle m - angle s)\<bar> \<le> pi * min 1 (turnSpeed s * dt) \<and>
             (\<bar>normalizeAngle (t - angle s)\<bar> \<le> 1 \<longrightarrow>
                \<bar>normalizeAngle (angle m - angle s)\<bar> \<le> turnSpeed s * dt)"
      if k: "0 \<le> turnSpeed s * dt"
    proof -
      define d where "d = \<bar>normalizeAngle (t - angle s)\<bar>"
      define k where "k = min 1 (turnSpeed s * dt)"
      have eq: "\<bar>normalizeAngle (angle m - angle s)\<bar> = d * k"
        unfolding d_def k_def by (rule moveSnake_heading_change [OF m that])
      have k0: "0 \<le> k" and k1: "k \<le> turnSpeed s * dt" using that by (simp_all add: k_def)
      have dpi: "d \<le> pi" and d0: "0 \<le> d"
        using normalizeAngle_range [of "t - angle s"] by (simp_all add: d_def abs_le_iff)
      have "d * k \<le> pi * k" using dpi k0 by (rule mult_right_mono)
      moreover have "d * k \<le> turnSpeed s * dt" if "d \<le> 1"
      proof -
        have "d * k \<le> 1 * k" using that k0 by (rule mult_right_mono)
        with k1 show ?thesis by simp
      qed
      ultimately show ?thesis unfolding eq unfolding d_def k_def by simp
    qed
    then have "?Q s (angle m) t" by (rule impI)
    with t have "\<exists>t. targetOf ta s = Num t \<and> ?Q s (angle m) t" by blast
    with id show "?P s m" by (rule conjI)
  qed
  have b: "list_all2 (\<lambda>m g. sid g = sid m \<and> angle g = angle m) moved grown"
    by (rule list_all2_mono [OF consumeAll_fields [OF eat]]) simp
  have "list_all2 ?P (snakes st) grown"
  proof (rule list_all2_trans [OF _ a b])
    fix s m g
    assume p: "?P s m" and "sid g = sid m \<and> angle g = angle m"
    then have e: "sid g = sid m" "angle g = angle m" by simp_all
    from p show "?P s g" unfolding e .
  qed
  with mv eat alive show ?thesis by (intro exI conjI)
qed

theorem heading_interpolation_witness:
  "tick turnState (1 / 60) [''player'' \<mapsto> 2] (0, 0) = Inr turnResult \<and>
   0 \<le> turnSpeed (hd (snakes turnState)) * (1 / 60) \<and>
   targetOf [''player'' \<mapsto> 2] (hd (snakes turnState)) = Num 2 \<and>
   (\<exists>moved grown ps.
      moveAll (1 / 60) [''player'' \<mapsto> 2] (snakes turnState) = Inr moved \<and>
      consumeAll moved (pellets turnState) = (grown, ps) \<and>
      snakes (state turnResult) = filter (\<lambda>s. sid s \<notin> set (deadIds turnResult)) grown \<and>
      list_all2 (\<lambda>s g. sid g = sid s \<and>
          (\<exists>t. targetOf [''player'' \<mapsto> 2] s = Num t \<and>
             (0 \<le> turnSpeed s * (1 / 60) \<longrightarrow>
                \<bar>normalizeAngle (angle g - angle s)\<bar>
                  = \<bar>normalizeAngle (t - angle s)\<bar> * min 1 (turnSpeed s * (1 / 60)) \<and>
                \<bar>normalizeAngle (angle g - angle s)\<bar> \<le> pi * min 1 (turnSpeed s * (1 / 60)) \<and>
                (\<bar>normalizeAngle (t - angle s)\<bar> \<le> 1 \<longrightarrow>
                   \<bar>normalizeAngle (angle g - angle s)\<bar> \<le> turnSpeed s * (1 / 60)))))
        (snakes turnState) grown)"
proof -
  have "0 \<le> turnSpeed (hd (snakes turnState)) * (1 / 60)"
    "targetOf [''player'' \<mapsto> 2] (hd (snakes turnState)) = Num 2"
    by (simp_all add: turnState_def turnSnake_def exSnake_def TURN_SPEED_def targetOf_def)
  with turn_tick heading_interpolation [OF turn_tick] show ?thesis by (intro conjI)
qed

section \<open>Segment spacing\<close>

text \<open>
  C3. As stated the claim fails: growth appends copies of the tail point, so after a tick in
  which an organism ate, its last segments coincide. The player of \<open>exState\<close> ends the tick
  with three segments, the second and third both at \<open>(94, 100)\<close>.
\<close>

theorem spacing_after_tick_counterexample:
  "tick exState (1 / 60) Map.empty (0, 0) = Inr exResult \<and>
   length (segments (hd (snakes (state exResult)))) = 3 \<and>
   hypot (px (segments (hd (snakes (state exResult))) ! 1) - px (segments (hd (snakes (state exResult))) ! 2))
         (py (segments (hd (snakes (state exResult))) ! 1) - py (segments (hd (snakes (state exResult))) ! 2))
     = 0 \<and>
   SEGMENT_SPACING = 8"
proof -
  have "length (segments (hd (snakes (state exResult)))) = 3"
    "hypot (px (segments (hd (snakes (state exResult))) ! 1) - px (segments (hd (snakes (state exResult))) ! 2))
         (py (segments (hd (snakes (state exResult))) ! 1) - py (segments (hd (snakes (state exResult))) ! 2))
     = 0"
    "SEGMENT_SPACING = 8"
    by (simp_all add: exResult_def hypot_def SEGMENT_SPACING_def)
  with exState_tick show ?thesis by (intro conjI)
qed

text \<open>
  C3, amended. Immediately after the movement step of a tick (the array \<open>moved\<close>) every two
  consecutive segments of every organism, the head included, are exactly
  \<open>SEGMENT_SPACING\<close> apart. The organisms after the tick are the survivors of \<open>grown\<close>,
  where each organism is its moved body followed by \<open>g\<close> copies of its tail point, and
  \<open>g = 0\<close> exactly when the values of the pellets it ate sum to nothing positive: an
  organism that did not grow in the tick keeps the spacing, one that grew has its new
  segments at distance 0 from its tail.
\<close>

theorem spacing_after_move:
  assumes "tick st dt ta rnd = Inr r"
  shows "\<exists>moved grown ps.
      moveAll dt ta (snakes st) = Inr moved \<and>
      consumeAll moved (pellets st) = (grown, ps) \<and>
      snakes (state r) = filter (\<lambda>s. sid s \<notin> set (deadIds r)) grown \<and>
      length grown = length moved \<and>
      (\<forall>k < length moved.
         (\<forall>i. Suc i < length (segments (moved ! k)) \<longrightarrow>
            hypot (px (segments (moved ! k) ! i) - px (segments (moved ! k) ! Suc i))
                  (py (segments (moved ! k) ! i) - py (segments (moved ! k) ! Suc i))
              = SEGMENT_SPACING) \<and>
         (\<exists>g. segments (grown ! k) = segments (moved ! k) @ replicate g (last (segments (moved ! k))) \<and>
              (g = 0 \<longleftrightarrow> sum_list (map pvalue (pelletsEatenBy moved (pellets st) k)) \<le> 0)))"
proof -
  from assms obtain moved grown ps where mv: "moveAll dt ta (snakes st) = Inr moved"
    and eat: "consumeAll moved (pellets st) = (grown, ps)"
    and alive: "snakes (state r) = filter (\<lambda>s. sid s \<notin> set (deadIds r)) grown"
    by (rule tick_Inr)
  have len: "length grown = length moved" by (rule consumeAll_length [OF eat])
  have body: "\<forall>k < length moved.
         (\<forall>i. Suc i < length (segments (moved ! k)) \<longrightarrow>
            hypot (px (segments (moved ! k) ! i) - px (segments (moved ! k) ! Suc i))
                  (py (segments (moved ! k) ! i) - py (segments (moved ! k) ! Suc i))
              = SEGMENT_SPACING) \<and>
         (\<exists>g. segments (grown ! k) = segments (moved ! k) @ replicate g (last (segments (moved ! k))) \<and>
              (g = 0 \<longleftrightarrow> sum_list (map pvalue (pelletsEatenBy moved (pellets st) k)) \<le> 0))"
  proof (intro allI impI conjI)
    fix k i
    assume k: "k < length moved" and i: "Suc i < length (segments (moved ! k))"
    from k have "k < length (snakes st)" by (simp add: moveAll_length [OF mv])
    from moveAll_nth [OF mv this] obtain t where "moveSnake (snakes st ! k) dt t = Inr (moved ! k)"
      by blast
    from this i
    show "hypot (px (segments (moved ! k) ! i) - px (segments (moved ! k) ! Suc i))
                  (py (segments (moved ! k) ! i) - py (segments (moved ! k) ! Suc i))
              = SEGMENT_SPACING"
      by (rule moveSnake_spacing)
  next
    fix k assume k: "k < length moved"
    let ?gain = "sum_list (map pvalue (pelletsEatenBy moved (pellets st) k))"
    have "segments (grown ! k) = segments (moved ! k) @ replicate (nat \<lceil>?gain\<rceil>) (last (segments (moved ! k)))"
      by (simp add: consumeAll_nth [OF eat k])
    moreover have "nat \<lceil>?gain\<rceil> = 0 \<longleftrightarrow> ?gain \<le> 0"
      by (simp add: ceiling_le_iff)
    ultimately show "\<exists>g. segments (grown ! k) = segments (moved ! k) @ replicate g (last (segments (moved ! k))) \<and>
              (g = 0 \<longleftrightarrow> ?gain \<le> 0)"
      by (intro exI [of _ "nat \<lceil>?gain\<rceil>"] conjI)
  qed
  from mv eat alive len body show ?thesis by (intro exI conjI)
qed

theorem spacing_after_move_witness:
  "tick exState (1 / 60) Map.empty (0, 0) = Inr exResult \<and>
   (\<exists>moved grown ps.
      moveAll (1 / 60) Map.empty (snakes exState) = Inr moved \<and>
      consumeAll moved (pellets exState) = (grown, ps) \<and>
      snakes (state exResult) = filter (\<lambda>s. sid s \<notin> set (deadIds exResult)) grown \<and>
      length grown = length moved \<and>
      (\<forall>k < length moved.
         (\<forall>i. Suc i < length (segments (moved ! k)) \<longrightarrow>
            hypot (px (segments (moved ! k) ! i) - px (segments (moved ! k) ! Suc i))
                  (py (segments (moved ! k) ! i) - py (segments (moved ! k) ! Suc i))
              = SEGMENT_SPACING) \<and>
         (\<exists>g. segments (grown ! k) = segments (moved ! k) @ replicate g (last (segments (moved ! k))) \<and>
              (g = 0 \<longleftrightarrow> sum_list (map pvalue (pelletsEatenBy moved (pellets exState) k)) \<le> 0))))"
  by (rule conjI [OF exState_tick spacing_after_move [OF exState_tick]])

section \<open>The death rule\<close>

text \<open>
  C4. After movement and growth (the array \<open>grown\<close>), an id is in \<open>deadIds\<close> exactly when
  it is the id of an organism whose head is less than \<open>HEAD_RADIUS\<close> from a wall or less
  than \<open>HEAD_RADIUS + BODY_RADIUS\<close> from a segment of an organism with a different id. An
  organism clear of the walls and of every other organism's segments is not marked dead,
  however close its own segments are; and no organism of the returned state carries an id
  of \<open>deadIds\<close>: the returned organisms are the organisms of \<open>grown\<close> whose id is not dead.
\<close>

theorem death_rule:
  assumes "tick st dt ta rnd = Inr r"
  shows "\<exists>moved grown ps.
      moveAll dt ta (snakes st) = Inr moved \<and>
      consumeAll moved (pellets st) = (grown, ps) \<and>
      (\<forall>i. i \<in> set (deadIds r) \<longleftrightarrow>
         (\<exists>s \<in> set grown. sid s = i \<and>
            (headAtWall (bounds st) (hd (segments s)) \<or>
             (\<exists>t \<in> set grown. sid t \<noteq> sid s \<and>
                (\<exists>seg \<in> set (segments t). headTouches (hd (segments s)) seg))))) \<and>
      (\<forall>s \<in> set grown.
         (\<forall>t \<in> set grown. sid t = sid s \<longrightarrow> t = s) \<and>
         \<not> headAtWall (bounds st) (hd (segments s)) \<and>
         (\<forall>t \<in> set grown. t \<noteq> s \<longrightarrow>
            (\<forall>seg \<in> set (segments t). \<not> headTouches (hd (segments s)) seg))
         \<longrightarrow> sid s \<notin> set (deadIds r)) \<and>
      snakes (state r) = filter (\<lambda>s. sid s \<notin> set (deadIds r)) grown \<and>
      (\<forall>s \<in> set (snakes (state r)). sid s \<notin> set (deadIds r))"
proof -
  from assms obtain moved grown ps where mv: "moveAll dt ta (snakes st) = Inr moved"
    and eat: "consumeAll moved (pellets st) = (grown, ps)"
    and dead: "deadIds r = collectDead (bounds st) grown grown []"
    and alive: "snakes (state r) = filter (\<lambda>s. sid s \<notin> set (deadIds r)) grown"
    by (rule tick_Inr)
  have iff: "i \<in> set (deadIds r) \<longleftrightarrow>
         (\<exists>s \<in> set grown. sid s = i \<and>
            (headAtWall (bounds st) (hd (segments s)) \<or>
             (\<exists>t \<in> set grown. sid t \<noteq> sid s \<and>
                (\<exists>seg \<in> set (segments t). headTouches (hd (segments s)) seg))))" for i
    unfolding dead set_collectDead
    by (simp only: headHitsBody_iff hitWall_headAtWall distSq_headTouches) auto
  have self: "sid s \<notin> set (deadIds r)"
    if "s \<in> set grown" and uniq: "\<forall>t \<in> set grown. sid t = sid s \<longrightarrow> t = s"
      and wall: "\<not> headAtWall (bounds st) (hd (segments s))"
      and clear: "\<forall>t \<in> set grown. t \<noteq> s \<longrightarrow>
            (\<forall>seg \<in> set (segments t). \<not> headTouches (hd (segments s)) seg)" for s
  proof
    assume "sid s \<in> set (deadIds r)"
    then obtain u where u: "u \<in> set grown" "sid u = sid s"
      and hit: "headAtWall (bounds st) (hd (segments u)) \<or>
         (\<exists>t \<in> set grown. sid t \<noteq> sid u \<and>
            (\<exists>seg \<in> set (segments t). headTouches (hd (segments u)) seg))"
      unfolding iff by blast
    from u uniq have "u = s" by blast
    with hit wall obtain t seg where "t \<in> set grown" "sid t \<noteq> sid s" "seg \<in> set (segments t)"
      "headTouches (hd (segments s)) seg"
      by blast
    moreover from this have "t \<noteq> s" by blast
    ultimately show False using clear by blast
  qed
  have gone: "\<forall>s \<in> set (snakes (state r)). sid s \<notin> set (deadIds r)"
    by (simp add: alive)
  have self': "\<forall>s \<in> set grown.
         (\<forall>t \<in> set grown. sid t = sid s \<longrightarrow> t = s) \<and>
         \<not> headAtWall (bounds st) (hd (segments s)) \<and>
         (\<forall>t \<in> set grown. t \<noteq> s \<longrightarrow>
            (\<forall>seg \<in> set (segments t). \<not> headTouches (hd (segments s)) seg))
         \<longrightarrow> sid s \<notin> set (deadIds r)"
  proof (intro ballI impI)
    fix s
    assume "s \<in> set grown" and h: "(\<forall>t \<in> set grown. sid t = sid s \<longrightarrow> t = s) \<and>
         \<not> headAtWall (bounds st) (hd (segments s)) \<and>
         (\<forall>t \<in> set grown. t \<noteq> s \<longrightarrow>
            (\<forall>seg \<in> set (segments t). \<not> headTouches (hd (segments s)) seg))"
    from this(1) h [THEN conjunct1] h [THEN conjunct2, THEN conjunct1]
      h [THEN conjunct2, THEN conjunct2]
    show "sid s \<notin> set (deadIds r)" by (rule self)
  qed
  show ?thesis
    apply (rule exI [of _ moved], rule exI [of _ grown], rule exI [of _ ps])
    apply (rule conjI [OF mv], rule conjI [OF eat])
    apply (rule conjI)
     apply (rule allI, rule iff)
    apply (rule conjI [OF self'], rule conjI [OF alive gone])
    done
qed

text \<open>
  The rule at three ticks. In \<open>duelState\<close> each head ends ten units from a segment of the
  other organism and both die. In \<open>wallState\<close> the head ends seven units from the left wall
  and the player dies. In \<open>exState\<close> the player's head ends eight units from its own second
  segment, clear of the walls, and the player lives.
\<close>

theorem death_rule_witness:
  "HEAD_RADIUS = 10 \<and> BODY_RADIUS = 8 \<and>
   tick duelState (1 / 60) Map.empty (0, 0) = Inr duelResult \<and>
   (\<exists>moved grown ps.
      moveAll (1 / 60) Map.empty (snakes duelState) = Inr moved \<and>
      consumeAll moved (pellets duelState) = (grown, ps) \<and>
      grown = duelMoved \<and>
      (\<forall>i. i \<in> set (deadIds duelResult) \<longleftrightarrow>
         (\<exists>s \<in> set grown. sid s = i \<and>
            (headAtWall (bounds duelState) (hd (segments s)) \<or>
             (\<exists>t \<in> set grown. sid t \<noteq> sid s \<and>
                (\<exists>seg \<in> set (segments t). headTouches (hd (segments s)) seg))))) \<and>
      (\<forall>s \<in> set grown.
         (\<forall>t \<in> set grown. sid t = sid s \<longrightarrow> t = s) \<and>
         \<not> headAtWall (bounds duelState) (hd (segments s)) \<and>
         (\<forall>t \<in> set grown. t \<noteq> s \<longrightarrow>
            (\<forall>seg \<in> set (segments t). \<not> headTouches (hd (segments s)) seg))
         \<longrightarrow> sid s \<notin> set (deadIds duelResult)) \<and>
      snakes (state duelResult) = filter (\<lambda>s. sid s \<notin> set (deadIds duelResult)) grown \<and>
      (\<forall>s \<in> set (snakes (state duelResult)). sid s \<notin> set (deadIds duelResult))) \<and>
   map (\<lambda>s. (sid s, hd (segments s))) duelMoved =
     [(''player'', \<lparr>px = 102, py = 100\<rparr>), (''snake-1'', \<lparr>px = 112, py = 100\<rparr>)] \<and>
   headTouches \<lparr>px = 102, py = 100\<rparr> \<lparr>px = 112, py = 100\<rparr> \<and>
   headTouches \<lparr>px = 112, py = 100\<rparr> \<lparr>px = 102, py = 100\<rparr> \<and>
   deadIds duelResult = [''player'', ''snake-1''] \<and>
   snakes (state duelResult) = [] \<and>
   tick wallState (1 / 60) Map.empty (0, 0) = Inr wallResult \<and>
   (\<exists>moved grown ps.
      moveAll (1 / 60) Map.empty (snakes wallState) = Inr moved \<and>
      consumeAll moved (pellets wallState) = (grown, ps) \<and>
      grown = [wallSnake\<lparr>segments := [\<lparr>px = 7, py = 100\<rparr>]\<rparr>] \<and>
      (\<forall>i. i \<in> set (deadIds wallResult) \<longleftrightarrow>
         (\<exists>s \<in> set grown. sid s = i \<and>
            (headAtWall (bounds wallState) (hd (segments s)) \<or>
             (\<exists>t \<in> set grown. sid t \<noteq> sid s \<and>
                (\<exists>seg \<in> set (segments t). headTouches (hd (segments s)) seg))))) \<and>
      (\<forall>s \<in> set grown.
         (\<forall>t \<in> set grown. sid t = sid s \<longrightarrow> t = s) \<and>
         \<not> headAtWall (bounds wallState) (hd (segments s)) \<and>
         (\<forall>t \<in> set grown. t \<noteq> s \<longrightarrow>
            (\<forall>seg \<in> set (segments t). \<not> headTouches (hd (segments s)) seg))
         \<longrightarrow> sid s \<notin> set (deadIds wallResult)) \<and>
      snakes (state wallResult) = filter (\<lambda>s. sid s \<notin> set (deadIds wallResult)) grown \<and>
      (\<forall>s \<in> set (snakes (state wallResult)). sid s \<notin> set (deadIds wallResult))) \<and>
   sid wallSnake = ''player'' \<and>
   headAtWall (bounds wallState) \<lparr>px = 7, py = 100\<rparr> \<and>
   deadIds wallResult = [''player''] \<and>
   snakes (state wallResult) = [] \<and>
   tick exState (1 / 60) Map.empty (0, 0) = Inr exResult \<and>
   (\<exists>moved grown ps.
      moveAll (1 / 60) Map.empty (snakes exState) = Inr moved \<and>
      consumeAll moved (pellets exState) = (grown, ps) \<and>
      grown = [exSnake\<lparr>segments := [\<lparr>px = 102, py = 100\<rparr>, \<lparr>px = 94, py = 100\<rparr>, \<lparr>px = 94, py = 100\<rparr>]\<rparr>] \<and>
      (\<forall>i. i \<in> set (deadIds exResult) \<longleftrightarrow>
         (\<exists>s \<in> set grown. sid s = i \<and>
            (headAtWall (bounds exState) (hd (segments s)) \<or>
             (\<exists>t \<in> set grown. sid t \<noteq> sid s \<and>
                (\<exists>seg \<in> set (segments t). headTouches (hd (segments s)) seg))))) \<and>
      (\<forall>s \<in> set grown.
         (\<forall>t \<in> set grown. sid t = sid s \<longrightarrow> t = s) \<and>
         \<not> headAtWall (bounds exState) (hd (segments s)) \<and>
         (\<forall>t \<in> set grown. t \<noteq> s \<longrightarrow>
            (\<forall>seg \<in> set (segments t). \<not> headTouches (hd (segments s)) seg))
         \<longrightarrow> sid s \<notin> set (deadIds exResult)) \<and>
      snakes (state exResult) = filter (\<lambda>s. sid s \<notin> set (deadIds exResult)) grown \<and>
      (\<forall>s \<in> set (snakes (state exResult)). sid s \<notin> set (deadIds exResult))) \<and>
   sid exSnake = ''player'' \<and>
   headTouches \<lparr>px = 102, py = 100\<rparr> \<lparr>px = 94, py = 100\<rparr> \<and>
   \<not> headAtWall (bounds exState) \<lparr>px = 102, py = 100\<rparr> \<and>
   deadIds exResult = [] \<and>
   snakes (state exResult) = [exSnake\<lparr>segments := [\<lparr>px = 102, py = 100\<rparr>, \<lparr>px = 94, py = 100\<rparr>, \<lparr>px = 94, py = 100\<rparr>]\<rparr>]"
proof -
  have c: "HEAD_RADIUS = 10" "BODY_RADIUS = 8"
    by (simp_all add: HEAD_RADIUS_def BODY_RADIUS_def)
  have duel: "(\<exists>moved grown ps.
      moveAll (1 / 60) Map.empty (snakes duelState) = Inr moved \<and>
      consumeAll moved (pellets duelState) = (grown, ps) \<and>
      grown = duelMoved \<and>
      (\<forall>i. i \<in> set (deadIds duelResult) \<longleftrightarrow>
         (\<exists>s \<in> set grown. sid s = i \<and>
            (headAtWall (bounds duelState) (hd (segments s)) \<or>
             (\<exists>t \<in> set grown. sid t \<noteq> sid s \<and>
                (\<exists>seg \<in> set (segments t). headTouches (hd (segments s)) seg))))) \<and>
      (\<forall>s \<in> set grown.
         (\<forall>t \<in> set grown. sid t = sid s \<longrightarrow> t = s) \<and>
         \<not> headAtWall (bounds duelState) (hd (segments s)) \<and>
         (\<forall>t \<in> set grown. t \<noteq> s \<longrightarrow>
            (\<forall>seg \<in> set (segments t). \<not> headTouches (hd (segments s)) seg))
         \<longrightarrow> sid s \<notin> set (deadIds duelResult)) \<and>
      snakes (state duelResult) = filter (\<lambda>s. sid s \<notin> set (deadIds duelResult)) grown \<and>
      (\<forall>s \<in> set (snakes (state duelResult)). sid s \<notin> set (deadIds duelResult)))"
    by (rule pin_grown [OF death_rule [OF duel_tick] duel_moveAll duel_consumeAll])
  have wall: "(\<exists>moved grown ps.
      moveAll (1 / 60) Map.empty (snakes wallState) = Inr moved \<and>
      consumeAll moved (pellets wallState) = (grown, ps) \<and>
      grown = [wallSnake\<lparr>segments := [\<lparr>px = 7, py = 100\<rparr>]\<rparr>] \<and>
      (\<forall>i. i \<in> set (deadIds wallResult) \<longleftrightarrow>
         (\<exists>s \<in> set grown. sid s = i \<and>
            (headAtWall (bounds wallState) (hd (segments s)) \<or>
             (\<exists>t \<in> set grown. sid t \<noteq> sid s \<and>
                (\<exists>seg \<in> set (segments t). headTouches (hd (segments s)) seg))))) \<and>
      (\<forall>s \<in> set grown.
         (\<forall>t \<in> set grown. sid t = sid s \<longrightarrow> t = s) \<and>
         \<not> headAtWall (bounds wallState) (hd (segments s)) \<and>
         (\<forall>t \<in> set grown. t \<noteq> s \<longrightarrow>
            (\<forall>seg \<in> set (segments t). \<not> headTouches (hd (segments s)) seg))
         \<longrightarrow> sid s \<notin> set (deadIds wallResult)) \<and>
      snakes (state wallResult) = filter (\<lambda>s. sid s \<notin> set (deadIds wallResult)) grown \<and>
      (\<forall>s \<in> set (snakes (state wallResult)). sid s \<notin> set (deadIds wallResult)))"
    by (rule pin_grown [OF death_rule [OF wall_tick] wall_moveAll wall_consumeAll])
  have ex: "(\<exists>moved grown ps.
      moveAll (1 / 60) Map.empty (snakes exState) = Inr moved \<and>
      consumeAll moved (pellets exState) = (grown, ps) \<and>
      grown = [exSnake\<lparr>segments := [\<lparr>px = 102, py = 100\<rparr>, \<lparr>px = 94, py = 100\<rparr>, \<lparr>px = 94, py = 100\<rparr>]\<rparr>] \<and>
      (\<forall>i. i \<in> set (deadIds exResult) \<longleftrightarrow>
         (\<exists>s \<in> set grown. sid s = i \<and>
            (headAtWall (bounds exState) (hd (segments s)) \<or>
             (\<exists>t \<in> set grown. sid t \<noteq> sid s \<and>
                (\<exists>seg \<in> set (segments t). headTouches (hd (segments s)) seg))))) \<and>
      (\<forall>s \<in> set grown.
         (\<forall>t \<in> set grown. sid t = sid s \<longrightarrow> t = s) \<and>
         \<not> headAtWall (bounds exState) (hd (segments s)) \<and>
         (\<forall>t \<in> set grown. t \<noteq> s \<longrightarrow>
            (\<forall>seg \<in> set (segments t). \<not> headTouches (hd (segments s)) seg))
         \<longrightarrow> sid s \<notin> set (deadIds exResult)) \<and>
      snakes (state exResult) = filter (\<lambda>s. sid s \<notin> set (deadIds exResult)) grown \<and>
      (\<forall>s \<in> set (snakes (state exResult)). sid s \<notin> set (deadIds exResult)))"
    by (rule pin_grown [OF death_rule [OF exState_tick] exState_moveAll exState_consumeAll])
  have d: "map (\<lambda>s. (sid s, hd (segments s))) duelMoved =
     [(''player'', \<lparr>px = 102, py = 100\<rparr>), (''snake-1'', \<lparr>px = 112, py = 100\<rparr>)]"
    "deadIds duelResult = [''player'', ''snake-1'']" "snakes (state duelResult) = []"
    by (simp_all add: duelMoved_def duelA_def duelB_def duelResult_def)
  have t: "headTouches \<lparr>px = 102, py = 100\<rparr> \<lparr>px = 112, py = 100\<rparr>"
    "headTouches \<lparr>px = 112, py = 100\<rparr> \<lparr>px = 102, py = 100\<rparr>"
    "headTouches \<lparr>px = 102, py = 100\<rparr> \<lparr>px = 94, py = 100\<rparr>"
    by (simp_all add: headTouches_def c)
  have w: "sid wallSnake = ''player''" "headAtWall (bounds wallState) \<lparr>px = 7, py = 100\<rparr>"
    "deadIds wallResult = [''player'']" "snakes (state wallResult) = []"
    by (simp_all add: wallSnake_def exSnake_def headAtWall_def c wallResult_def)
  have e: "sid exSnake = ''player''" "\<not> headAtWall (bounds exState) \<lparr>px = 102, py = 100\<rparr>"
    "deadIds exResult = []"
    "snakes (state exResult) = [exSnake\<lparr>segments := [\<lparr>px = 102, py = 100\<rparr>, \<lparr>px = 94, py = 100\<rparr>, \<lparr>px = 94, py = 100\<rparr>]\<rparr>]"
    by (simp_all add: exSnake_def headAtWall_def c exState_def exResult_def)
  from c duel_tick duel d t(1,2) wall_tick wall w exState_tick ex e(1) t(3) e(2,3,4)
  show ?thesis by (intro conjI)
qed

section \<open>Simultaneous deaths\<close>

text \<open>
  C5. Every organism of the post-growth array is tested against that whole array, the
  organisms that die in this tick included, and the returned organisms are that array
  without every organism whose id was marked. So two organisms with different ids whose
  heads each lie within the collision radius of a segment of the other are both in
  \<open>deadIds\<close>.
\<close>

theorem deaths_are_simultaneous:
  assumes "tick st dt ta rnd = Inr r"
  shows "\<exists>moved grown ps.
      moveAll dt ta (snakes st) = Inr moved \<and>
      consumeAll moved (pellets st) = (grown, ps) \<and>
      (\<forall>s \<in> set grown.
         hitWall (hd (segments s)) (bounds st) \<or>
         (\<exists>t \<in> set grown. sid t \<noteq> sid s \<and>
            (\<exists>seg \<in> set (segments t).
               distSq (hd (segments s)) seg < (HEAD_RADIUS + BODY_RADIUS)\<^sup>2))
         \<longrightarrow> sid s \<in> set (deadIds r)) \<and>
      snakes (state r) = filter (\<lambda>s. sid s \<notin> set (deadIds r)) grown \<and>
      (\<forall>a \<in> set grown. \<forall>b \<in> set grown.
         sid a \<noteq> sid b \<and>
         (\<exists>seg \<in> set (segments b). distSq (hd (segments a)) seg < (HEAD_RADIUS + BODY_RADIUS)\<^sup>2) \<and>
         (\<exists>seg \<in> set (segments a). distSq (hd (segments b)) seg < (HEAD_RADIUS + BODY_RADIUS)\<^sup>2)
         \<longrightarrow> sid a \<in> set (deadIds r) \<and> sid b \<in> set (deadIds r))"
proof -
  from assms obtain moved grown ps where mv: "moveAll dt ta (snakes st) = Inr moved"
    and eat: "consumeAll moved (pellets st) = (grown, ps)"
    and dead: "deadIds r = collectDead (bounds st) grown grown []"
    and alive: "snakes (state r) = filter (\<lambda>s. sid s \<notin> set (deadIds r)) grown"
    by (rule tick_Inr)
  have hit: "sid s \<in> set (deadIds r)"
    if "s \<in> set grown" "t \<in> set grown" "sid t \<noteq> sid s" "seg \<in> set (segments t)"
      "distSq (hd (segments s)) seg < (HEAD_RADIUS + BODY_RADIUS)\<^sup>2" for s t seg
  proof -
    from that have "headHitsBody (sid s) (hd (segments s)) grown"
      unfolding headHitsBody_iff by blast
    with that(1) show ?thesis unfolding dead set_collectDead by blast
  qed
  have wall: "sid s \<in> set (deadIds r)"
    if "s \<in> set grown" "hitWall (hd (segments s)) (bounds st)" for s
    using that unfolding dead set_collectDead by blast
  have every: "\<forall>s \<in> set grown.
         hitWall (hd (segments s)) (bounds st) \<or>
         (\<exists>t \<in> set grown. sid t \<noteq> sid s \<and>
            (\<exists>seg \<in> set (segments t).
               distSq (hd (segments s)) seg < (HEAD_RADIUS + BODY_RADIUS)\<^sup>2))
         \<longrightarrow> sid s \<in> set (deadIds r)"
    using hit wall by blast
  have mutual: "\<forall>a \<in> set grown. \<forall>b \<in> set grown.
         sid a \<noteq> sid b \<and>
         (\<exists>seg \<in> set (segments b). distSq (hd (segments a)) seg < (HEAD_RADIUS + BODY_RADIUS)\<^sup>2) \<and>
         (\<exists>seg \<in> set (segments a). distSq (hd (segments b)) seg < (HEAD_RADIUS + BODY_RADIUS)\<^sup>2)
         \<longrightarrow> sid a \<in> set (deadIds r) \<and> sid b \<in> set (deadIds r)"
  proof (intro ballI impI)
    fix a b
    assume a: "a \<in> set grown" and b: "b \<in> set grown"
      and h: "sid a \<noteq> sid b \<and>
         (\<exists>seg \<in> set (segments b). distSq (hd (segments a)) seg < (HEAD_RADIUS + BODY_RADIUS)\<^sup>2) \<and>
         (\<exists>seg \<in> set (segments a). distSq (hd (segments b)) seg < (HEAD_RADIUS + BODY_RADIUS)\<^sup>2)"
    from h obtain sb where sb: "sb \<in> set (segments b)"
      "distSq (hd (segments a)) sb < (HEAD_RADIUS + BODY_RADIUS)\<^sup>2" by blast
    from h obtain sa where sa: "sa \<in> set (segments a)"
      "distSq (hd (segments b)) sa < (HEAD_RADIUS + BODY_RADIUS)\<^sup>2" by blast
    from h have ne2: "sid a \<noteq> sid b" by (rule conjunct1)
    then have ne1: "sid b \<noteq> sid a" by (rule not_sym)
    note ne = ne1 ne2
    have "sid a \<in> set (deadIds r)" by (rule hit [OF a b ne(1) sb])
    moreover have "sid b \<in> set (deadIds r)" by (rule hit [OF b a ne(2) sa])
    ultimately show "sid a \<in> set (deadIds r) \<and> sid b \<in> set (deadIds r)" by (rule conjI)
  qed
  show ?thesis
    apply (rule exI [of _ moved], rule exI [of _ grown], rule exI [of _ ps])
    apply (rule conjI [OF mv], rule conjI [OF eat], rule conjI [OF every])
    apply (rule conjI [OF alive mutual])
    done
qed

theorem deaths_are_simultaneous_witness:
  "tick duelState (1 / 60) Map.empty (0, 0) = Inr duelResult \<and>
   deadIds duelResult = [''player'', ''snake-1''] \<and>
   snakes (state duelResult) = [] \<and>
   (\<exists>moved grown ps.
      moveAll (1 / 60) Map.empty (snakes duelState) = Inr moved \<and>
      consumeAll moved (pellets duelState) = (grown, ps) \<and>
      (\<forall>s \<in> set grown.
         hitWall (hd (segments s)) (bounds duelState) \<or>
         (\<exists>t \<in> set grown. sid t \<noteq> sid s \<and>
            (\<exists>seg \<in> set (segments t).
               distSq (hd (segments s)) seg < (HEAD_RADIUS + BODY_RADIUS)\<^sup>2))
         \<longrightarrow> sid s \<in> set (deadIds duelResult)) \<and>
      snakes (state duelResult) = filter (\<lambda>s. sid s \<notin> set (deadIds duelResult)) grown \<and>
      (\<forall>a \<in> set grown. \<forall>b \<in> set grown.
         sid a \<noteq> sid b \<and>
         (\<exists>seg \<in> set (segments b). distSq (hd (segments a)) seg < (HEAD_RADIUS + BODY_RADIUS)\<^sup>2) \<and>
         (\<exists>seg \<in> set (segments a). distSq (hd (segments b)) seg < (HEAD_RADIUS + BODY_RADIUS)\<^sup>2)
         \<longrightarrow> sid a \<in> set (deadIds duelResult) \<and> sid b \<in> set (deadIds duelResult)))"
proof -
  have "deadIds duelResult = [''player'', ''snake-1'']" "snakes (state duelResult) = []"
    by (simp_all add: duelResult_def)
  with duel_tick deaths_are_simultaneous [OF duel_tick] show ?thesis by (intro conjI)
qed

section \<open>Pellet consumption\<close>

text \<open>
  C6. Pellet values being whole numbers (every pellet the code makes has value
  \<open>PELLET_VALUE = 1\<close>), in the consumption pass of a tick every pellet of the input set is
  either left in the set or eaten by exactly one organism: the pellets left and the pellets
  eaten by each organism add up, as multisets, to the input set. The pellets left are those
  in reach of no head, and the \<open>k\<close>-th organism eats the pellets less than
  \<open>PELLET_RADIUS + HEAD_RADIUS\<close> from its head, compared in squares, that no earlier
  organism reached. Its segments become its moved segments followed by as many copies of
  its tail point as the sum of the values it ate, so its segment count grows by exactly
  that sum.
\<close>

theorem pellet_consumption:
  assumes "tick st dt ta rnd = Inr r"
    and "\<forall>p \<in> set (pellets st). pvalue p \<in> \<nat>"
  shows "\<exists>moved grown ps.
      moveAll dt ta (snakes st) = Inr moved \<and>
      consumeAll moved (pellets st) = (grown, ps) \<and>
      length grown = length moved \<and>
      snakes (state r) = filter (\<lambda>s. sid s \<notin> set (deadIds r)) grown \<and>
      mset (pellets st) = mset ps + (\<Sum>k<length moved. mset (pelletsEatenBy moved (pellets st) k)) \<and>
      ps = filter (\<lambda>p. \<forall>m \<in> set moved. \<not> inReach (hd (segments m)) p) (pellets st) \<and>
      (\<forall>k < length moved.
         \<exists>n. real n = sum_list (map pvalue (pelletsEatenBy moved (pellets st) k)) \<and>
             segments (grown ! k) =
               segments (moved ! k) @ replicate n (last (segments (moved ! k))) \<and>
             length (segments (grown ! k)) = length (segments (moved ! k)) + n)"
proof -
  from assms(1) obtain moved grown ps where mv: "moveAll dt ta (snakes st) = Inr moved"
    and eat: "consumeAll moved (pellets st) = (grown, ps)"
    and alive: "snakes (state r) = filter (\<lambda>s. sid s \<notin> set (deadIds r)) grown"
    by (rule tick_Inr)
  have len: "length grown = length moved" by (rule consumeAll_length [OF eat])
  have left: "ps = filter (\<lambda>p. \<forall>m \<in> set moved. \<not> inReach (hd (segments m)) p) (pellets st)"
    using consumeAll_remaining [OF eat] by (simp only: distSq_inReach)
  have part: "mset (pellets st) = mset ps + (\<Sum>k<length moved. mset (pelletsEatenBy moved (pellets st) k))"
    using pelletsEatenBy_partition [of "pellets st" moved]
    by (simp only: consumeAll_remaining [OF eat, symmetric])
  have each: "\<forall>k < length moved.
         \<exists>n. real n = sum_list (map pvalue (pelletsEatenBy moved (pellets st) k)) \<and>
             segments (grown ! k) =
               segments (moved ! k) @ replicate n (last (segments (moved ! k))) \<and>
             length (segments (grown ! k)) = length (segments (moved ! k)) + n"
  proof (intro allI impI)
    fix k assume k: "k < length moved"
    let ?eaten = "pelletsEatenBy moved (pellets st) k"
    have seg: "segments (grown ! k) =
           segments (moved ! k) @ replicate (nat \<lceil>sum_list (map pvalue ?eaten)\<rceil>)
               (last (segments (moved ! k)))"
      by (simp add: consumeAll_nth [OF eat k])
    have "set ?eaten \<subseteq> set (pellets st)" by (auto simp: pelletsEatenBy_def)
    with assms(2) have "\<forall>p \<in> set ?eaten. pvalue p \<in> \<nat>" by blast
    then have "sum_list (map pvalue ?eaten) \<in> \<nat>"
      by (rule sum_list_Nats)
    then obtain n :: nat where n: "sum_list (map pvalue ?eaten) = real n"
      by (auto simp: Nats_def)
    have "real n = sum_list (map pvalue ?eaten) \<and>
             segments (grown ! k) =
               segments (moved ! k) @ replicate n (last (segments (moved ! k))) \<and>
             length (segments (grown ! k)) = length (segments (moved ! k)) + n"
      by (simp add: seg n)
    then show "\<exists>n. real n = sum_list (map pvalue ?eaten) \<and>
             segments (grown ! k) =
               segments (moved ! k) @ replicate n (last (segments (moved ! k))) \<and>
             length (segments (grown ! k)) = length (segments (moved ! k)) + n"
      by (rule exI)
  qed
  from mv eat len alive part left each show ?thesis by (intro exI conjI)
qed

text \<open>
  The rule at the tick of \<open>feastState\<close>: after the move both heads are fifteen units from
  the pellet at \<open>(100, 115)\<close>, which only the first organism eats; it grows by one segment,
  the second organism does not grow, and the far pellet is left.
\<close>

theorem pellet_consumption_witness:
  "PELLET_RADIUS = 6 \<and> HEAD_RADIUS = 10 \<and>
   tick feastState (1 / 60) Map.empty (0, 0) = Inr feastResult \<and>
   pellets feastState = [\<lparr>px = 100, py = 115, pvalue = 1\<rparr>, \<lparr>px = 500, py = 500, pvalue = 1\<rparr>] \<and>
   list_all (\<lambda>p. pvalue p \<in> \<nat>) (pellets feastState) \<and>
   (\<exists>moved grown ps.
      moveAll (1 / 60) Map.empty (snakes feastState) = Inr moved \<and>
      consumeAll moved (pellets feastState) = (grown, ps) \<and>
      grown = feastGrown \<and>
      length grown = length moved \<and>
      snakes (state feastResult) = filter (\<lambda>s. sid s \<notin> set (deadIds feastResult)) grown \<and>
      mset (pellets feastState) = mset ps + (\<Sum>k<length moved. mset (pelletsEatenBy moved (pellets feastState) k)) \<and>
      ps = filter (\<lambda>p. \<forall>m \<in> set moved. \<not> inReach (hd (segments m)) p) (pellets feastState) \<and>
      (\<forall>k < length moved.
         \<exists>n. real n = sum_list (map pvalue (pelletsEatenBy moved (pellets feastState) k)) \<and>
             segments (grown ! k) =
               segments (moved ! k) @ replicate n (last (segments (moved ! k))) \<and>
             length (segments (grown ! k)) = length (segments (moved ! k)) + n)) \<and>
   map (\<lambda>s. hd (segments s)) feastMoved = [\<lparr>px = 100, py = 100\<rparr>, \<lparr>px = 100, py = 130\<rparr>] \<and>
   inReach \<lparr>px = 100, py = 100\<rparr> \<lparr>px = 100, py = 115, pvalue = 1\<rparr> \<and>
   inReach \<lparr>px = 100, py = 130\<rparr> \<lparr>px = 100, py = 115, pvalue = 1\<rparr> \<and>
   pelletsEatenBy feastMoved (pellets feastState) 0 = [\<lparr>px = 100, py = 115, pvalue = 1\<rparr>] \<and>
   pelletsEatenBy feastMoved (pellets feastState) 1 = [] \<and>
   map segments feastMoved = [[\<lparr>px = 100, py = 100\<rparr>], [\<lparr>px = 100, py = 130\<rparr>]] \<and>
   map segments (snakes (state feastResult)) =
     [[\<lparr>px = 100, py = 100\<rparr>, \<lparr>px = 100, py = 100\<rparr>], [\<lparr>px = 100, py = 130\<rparr>]] \<and>
   pellets (state feastResult) = [\<lparr>px = 500, py = 500, pvalue = 1\<rparr>]"
proof -
  have c: "PELLET_RADIUS = 6" "HEAD_RADIUS = 10"
    by (simp_all add: PELLET_RADIUS_def HEAD_RADIUS_def)
  have p: "pellets feastState = [\<lparr>px = 100, py = 115, pvalue = 1\<rparr>, \<lparr>px = 500, py = 500, pvalue = 1\<rparr>]"
    by (simp add: feastState_def)
  have n: "list_all (\<lambda>p. pvalue p \<in> \<nat>) (pellets feastState)"
    by (simp add: p)
  then have n': "\<forall>p \<in> set (pellets feastState). pvalue p \<in> \<nat>"
    by (simp only: list_all_iff)
  have main: "\<exists>moved grown ps.
      moveAll (1 / 60) Map.empty (snakes feastState) = Inr moved \<and>
      consumeAll moved (pellets feastState) = (grown, ps) \<and>
      grown = feastGrown \<and>
      length grown = length moved \<and>
      snakes (state feastResult) = filter (\<lambda>s. sid s \<notin> set (deadIds feastResult)) grown \<and>
      mset (pellets feastState) = mset ps + (\<Sum>k<length moved. mset (pelletsEatenBy moved (pellets feastState) k)) \<and>
      ps = filter (\<lambda>p. \<forall>m \<in> set moved. \<not> inReach (hd (segments m)) p) (pellets feastState) \<and>
      (\<forall>k < length moved.
         \<exists>n. real n = sum_list (map pvalue (pelletsEatenBy moved (pellets feastState) k)) \<and>
             segments (grown ! k) =
               segments (moved ! k) @ replicate n (last (segments (moved ! k))) \<and>
             length (segments (grown ! k)) = length (segments (moved ! k)) + n)"
    by (rule pin_grown [OF pellet_consumption [OF feast_tick n'] feast_moveAll feast_consumeAll])
  have h: "map (\<lambda>s. hd (segments s)) feastMoved = [\<lparr>px = 100, py = 100\<rparr>, \<lparr>px = 100, py = 130\<rparr>]"
    "map segments feastMoved = [[\<lparr>px = 100, py = 100\<rparr>], [\<lparr>px = 100, py = 130\<rparr>]]"
    by (simp_all add: feastMoved_def)
  have r: "inReach \<lparr>px = 100, py = 100\<rparr> \<lparr>px = 100, py = 115, pvalue = 1\<rparr>"
    "inReach \<lparr>px = 100, py = 130\<rparr> \<lparr>px = 100, py = 115, pvalue = 1\<rparr>"
    by (simp_all add: inReach_def c)
  have e: "pelletsEatenBy feastMoved (pellets feastState) 0 = [\<lparr>px = 100, py = 115, pvalue = 1\<rparr>]"
    "pelletsEatenBy feastMoved (pellets feastState) 1 = []"
    by (simp_all add: pelletsEatenBy_def p feastMoved_def inReach_def c)
  have s: "map segments (snakes (state feastResult)) =
     [[\<lparr>px = 100, py = 100\<rparr>, \<lparr>px = 100, py = 100\<rparr>], [\<lparr>px = 100, py = 130\<rparr>]]"
    "pellets (state feastResult) = [\<lparr>px = 500, py = 500, pvalue = 1\<rparr>]"
    by (simp_all add: feastResult_def feastGrown_def)
  from c feast_tick p n main h(1) r e h(2) s show ?thesis by (intro conjI)
qed
section \<open>Missing and unknown steering targets\<close>

text \<open>
  C7. The claim fails for an organism whose id is the name of a member of
  \<open>Object.prototype\<close>. \<open>protoSnake\<close> is the single-segment player of the steering example
  under the id \<open>toString\<close>, heading 0. With an empty \<open>targetAngles\<close> its id is absent from
  the mapping, but \<open>targetAngles[s.id]\<close> finds the inherited function, \<open>??\<close> keeps it, and
  the target is not a number: the heading and the head of the organism in the returned
  state are \<open>NaN\<close>, where the claim says that the heading is unchanged. Under the id
  \<open>player\<close> the same organism is steered to its own heading.
\<close>

theorem missing_target_inherited_key:
  "snakes protoState = [protoSnake] \<and>
   protoSnake = turnSnake\<lparr>sid := ''toString'', isPlayer := False\<rparr> \<and>
   segments protoSnake = [\<lparr>px = 100, py = 100\<rparr>] \<and>
   angle protoSnake = 0 \<and> - pi \<le> angle protoSnake \<and> angle protoSnake \<le> pi \<and>
   (Map.empty :: string \<rightharpoonup> real) (sid protoSnake) = None \<and>
   sid protoSnake \<in> set objectPrototypeKeys \<and>
   targetOf Map.empty protoSnake = NaN \<and>
   targetOf Map.empty turnSnake = Num (angle turnSnake) \<and>
   moveAll (1 / 60) Map.empty (snakes protoState) = Inl NotANumber \<and>
   tick protoState (1 / 60) Map.empty (0, 0) = Inl NotANumber"
proof -
  have "snakes protoState = [protoSnake]"
    "protoSnake = turnSnake\<lparr>sid := ''toString'', isPlayer := False\<rparr>"
    "segments protoSnake = [\<lparr>px = 100, py = 100\<rparr>]"
    "angle protoSnake = 0" "- pi \<le> angle protoSnake" "angle protoSnake \<le> pi"
    "(Map.empty :: string \<rightharpoonup> real) (sid protoSnake) = None"
    "sid protoSnake \<in> set objectPrototypeKeys"
    "targetOf Map.empty turnSnake = Num (angle turnSnake)"
    by (simp_all add: protoState_def protoSnake_def turnSnake_def exSnake_def
        objectPrototypeKeys_def targetOf_def)
  moreover have "moveAll (1 / 60) Map.empty (snakes protoState) = Inl NotANumber"
    by (simp add: protoState_def proto_target) (simp add: protoSnake_def turnSnake_def)
  ultimately show ?thesis using proto_target proto_tick by (intro conjI)
qed

section \<open>State construction\<close>

text \<open>
  C8. As stated the claim fails. \<open>numBots\<close> counts all organisms, the player among them:
  with \<open>numBots = 1\<close> the state holds the player and no bot. Only the head of an
  organism is placed inside the padded bounds: with the draws \<open>0, 0, 1/2\<close> the player's
  head is at \<open>(40, 40)\<close>, its heading is 0 and its last segment is at \<open>(-72, 40)\<close>. And
  the call need not return: with \<open>numBots = 2\<close> and every draw 0, each spawn point tried
  for the second organism lies in the player's grid cell, and however many draws are
  supplied the rejection loop asks for more.
\<close>

theorem createInitialState_counterexample:
  "createInitialState soloOptions [0, 0, 1 / 2] = Some soloState \<and>
   numBotsOf soloOptions = 1 \<and>
   length (snakes soloState) = 1 \<and>
   isPlayer (hd (snakes soloState)) \<and>
   filter (\<lambda>s. \<not> isPlayer s) (snakes soloState) = [] \<and>
   segments (hd (snakes soloState)) ! 14 = \<lparr>px = - 72, py = 40\<rparr> \<and>
   \<not> inPadded (bounds soloState) (segments (hd (snakes soloState)) ! 14) \<and>
   numBotsOf pairOptions = 2 \<and>
   (\<forall>k. createInitialState pairOptions (replicate k 0) = None)"
proof -
  have never: "\<forall>k. createInitialState pairOptions (replicate k 0) = None"
    by (rule allI) (rule pair_never_returns)
  have two: "numBotsOf pairOptions = 2" by (simp add: numBotsOf_def pairOptions_def)
  have seg: "segments (hd (snakes soloState)) ! 14 = \<lparr>px = - 72, py = 40\<rparr>"
    by (simp add: soloState_def newSnake_fields INITIAL_LENGTH_def SEGMENT_SPACING_def)
  have "numBotsOf soloOptions = 1" "length (snakes soloState) = 1"
    "isPlayer (hd (snakes soloState))" "filter (\<lambda>s. \<not> isPlayer s) (snakes soloState) = []"
    by (simp_all add: numBotsOf_def soloOptions_def soloState_def newSnake_fields)
  moreover have "\<not> inPadded (bounds soloState) (segments (hd (snakes soloState)) ! 14)"
    unfolding seg by (simp add: inPadded_def ARENA_PADDING_def)
  ultimately show ?thesis using solo_create seg two never by (intro conjI)
qed

text \<open>
  C8, amended. Whenever \<open>createInitialState\<close> returns, the state holds exactly \<open>numBots\<close>
  organisms, the player among them: the organism at index 0 is the one flagged
  \<open>isPlayer\<close>, with id \<open>player\<close>, and the organism at each index \<open>i \<ge> 1\<close> has id
  \<open>snake-i\<close>; each has \<open>INITIAL_LENGTH\<close> segments, segment \<open>k\<close> lying
  \<open>k * SEGMENT_SPACING\<close> behind the head along the heading; there are exactly
  \<open>numPellets\<close> pellets, of value \<open>PELLET_VALUE\<close>; and, the draws being in \<open>[0, 1)\<close> and the
  bounds at least two paddings wide and high, every head and every pellet lies within the
  bounds inset by the arena padding (tail segments need not). The call returns exactly
  when the draws offer each organism in turn, after any number of spawn points in used
  grid cells, a spawn point in an unused cell and a heading, and then two draws for each
  pellet; the heads and headings are then those of the accepted spawn points. With the
  default bounds and draws in \<open>[0, 1)\<close> it cannot return for more than 3600 organisms, one
  for each grid cell.
\<close>

theorem createInitialState_shape:
  "(\<forall>st. createInitialState options rs = Some st \<longrightarrow>
      length (snakes st) = numBotsOf options \<and>
      length (pellets st) = numPelletsOf options \<and>
      bounds st = boundsOf options \<and>
      (\<forall>i < length (snakes st).
         (isPlayer (snakes st ! i) \<longleftrightarrow> i = 0) \<and>
         sid (snakes st ! i) = (if i = 0 then ''player'' else ''snake-'' @ showNat i) \<and>
         length (segments (snakes st ! i)) = INITIAL_LENGTH \<and>
         (\<forall>k < INITIAL_LENGTH. segments (snakes st ! i) ! k =
             \<lparr>px = px (hd (segments (snakes st ! i)))
                     - cos (angle (snakes st ! i)) * real k * SEGMENT_SPACING,
              py = py (hd (segments (snakes st ! i)))
                     - sin (angle (snakes st ! i)) * real k * SEGMENT_SPACING\<rparr>)) \<and>
      (\<forall>p \<in> set (pellets st). pvalue p = PELLET_VALUE) \<and>
      ((\<forall>r \<in> set rs. 0 \<le> r \<and> r < 1) \<and>
       2 * ARENA_PADDING \<le> width (boundsOf options) \<and>
       2 * ARENA_PADDING \<le> height (boundsOf options) \<longrightarrow>
         (\<forall>s \<in> set (snakes st). inPadded (bounds st) (hd (segments s))) \<and>
         (\<forall>p \<in> set (pellets st). inPadded (bounds st) p))) \<and>
   (\<forall>runs ps.
      acceptedRuns ARENA_PADDING (width (boundsOf options) - ARENA_PADDING)
        ARENA_PADDING (height (boundsOf options) - ARENA_PADDING) {} runs \<and>
      length runs = numBotsOf options \<and> 2 * numPelletsOf options \<le> length ps \<and>
      rs = runDraws runs @ ps \<longrightarrow>
        (\<exists>st. createInitialState options rs = Some st \<and>
           map (\<lambda>s. hd (segments s)) (snakes st) =
             runHeads ARENA_PADDING (width (boundsOf options) - ARENA_PADDING)
               ARENA_PADDING (height (boundsOf options) - ARENA_PADDING) runs \<and>
           map angle (snakes st) = runHeadings runs)) \<and>
   ((\<exists>st. createInitialState options rs = Some st) \<longrightarrow>
      (\<exists>runs ps.
         acceptedRuns ARENA_PADDING (width (boundsOf options) - ARENA_PADDING)
           ARENA_PADDING (height (boundsOf options) - ARENA_PADDING) {} runs \<and>
         length runs = numBotsOf options \<and> 2 * numPelletsOf options \<le> length ps \<and>
         rs = runDraws runs @ ps)) \<and>
   (optBounds options = None \<and> (\<forall>r \<in> set rs. 0 \<le> r \<and> r < 1) \<and>
    (\<exists>st. createInitialState options rs = Some st) \<longrightarrow> numBotsOf options \<le> 3600)"
proof (intro conjI)
  show "\<forall>st. createInitialState options rs = Some st \<longrightarrow>
      length (snakes st) = numBotsOf options \<and>
      length (pellets st) = numPelletsOf options \<and>
      bounds st = boundsOf options \<and>
      (\<forall>i < length (snakes st).
         (isPlayer (snakes st ! i) \<longleftrightarrow> i = 0) \<and>
         sid (snakes st ! i) = (if i = 0 then ''player'' else ''snake-'' @ showNat i) \<and>
         length (segments (snakes st ! i)) = INITIAL_LENGTH \<and>
         (\<forall>k < INITIAL_LENGTH. segments (snakes st ! i) ! k =
             \<lparr>px = px (hd (segments (snakes st ! i)))
                     - cos (angle (snakes st ! i)) * real k * SEGMENT_SPACING,
              py = py (hd (segments (snakes st ! i)))
                     - sin (angle (snakes st ! i)) * real k * SEGMENT_SPACING\<rparr>)) \<and>
      (\<forall>p \<in> set (pellets st). pvalue p = PELLET_VALUE) \<and>
      ((\<forall>r \<in> set rs. 0 \<le> r \<and> r < 1) \<and>
       2 * ARENA_PADDING \<le> width (boundsOf options) \<and>
       2 * ARENA_PADDING \<le> height (boundsOf options) \<longrightarrow>
         (\<forall>s \<in> set (snakes st). inPadded (bounds st) (hd (segments s))) \<and>
         (\<forall>p \<in> set (pellets st). inPadded (bounds st) p))"
  proof (intro allI impI)
    fix st assume "createInitialState options rs = Some st"
    then obtain ss rs1 ps rs2 where
      bs: "buildSnakes 0 (numBotsOf options) ARENA_PADDING (width (boundsOf options) - ARENA_PADDING)
         ARENA_PADDING (height (boundsOf options) - ARENA_PADDING) {} rs = Some (ss, rs1)"
      and bp: "buildPellets (numPelletsOf options) ARENA_PADDING (width (boundsOf options) - ARENA_PADDING)
         ARENA_PADDING (height (boundsOf options) - ARENA_PADDING) rs1 = Some (ps, rs2)"
      and st: "st = \<lparr>snakes = ss, pellets = ps, bounds = boundsOf options,
              nextSnakeId = numBotsOf options, nextPelletSpawn = PELLET_SPAWN_INTERVAL\<rparr>"
      by (rule createInitialState_Some)
    let ?b = "boundsOf options"
    let ?maxX = "width ?b - ARENA_PADDING" and ?maxY = "height ?b - ARENA_PADDING"
    from buildSnakes_Some [OF bs] have len: "length ss = numBotsOf options"
      and sub: "set rs1 \<subseteq> set rs"
      and each: "\<forall>k < numBotsOf options. \<exists>x y ang. ss ! k = newSnake (0 + k) x y ang \<and>
         (\<exists>r1 \<in> set rs. x = ARENA_PADDING + r1 * (?maxX - ARENA_PADDING)) \<and>
         (\<exists>r2 \<in> set rs. y = ARENA_PADDING + r2 * (?maxY - ARENA_PADDING))"
      by simp_all
    from buildPellets_Some [OF bp] have plen: "length ps = numPelletsOf options"
      and pel: "\<forall>p \<in> set ps. pvalue p = PELLET_VALUE \<and>
         (\<exists>r1 \<in> set rs1. px p = ARENA_PADDING + r1 * (?maxX - ARENA_PADDING)) \<and>
         (\<exists>r2 \<in> set rs1. py p = ARENA_PADDING + r2 * (?maxY - ARENA_PADDING))"
      by simp_all
    have shape: "(isPlayer (ss ! i) \<longleftrightarrow> i = 0) \<and>
         sid (ss ! i) = (if i = 0 then ''player'' else ''snake-'' @ showNat i) \<and>
         length (segments (ss ! i)) = INITIAL_LENGTH \<and>
         (\<forall>k < INITIAL_LENGTH. segments (ss ! i) ! k =
             \<lparr>px = px (hd (segments (ss ! i))) - cos (angle (ss ! i)) * real k * SEGMENT_SPACING,
              py = py (hd (segments (ss ! i))) - sin (angle (ss ! i)) * real k * SEGMENT_SPACING\<rparr>)"
      if "i < length ss" for i
    proof -
      from that len each obtain x y ang where "ss ! i = newSnake i x y ang" by auto
      then show ?thesis by (simp add: newSnake_fields)
    qed
    have heads: "\<forall>s \<in> set ss. inPadded ?b (hd (segments s))"
      and pells: "\<forall>p \<in> set ps. inPadded ?b p"
      if rng: "\<forall>r \<in> set rs. 0 \<le> r \<and> r < 1"
        and w: "2 * ARENA_PADDING \<le> width ?b" and h: "2 * ARENA_PADDING \<le> height ?b"
    proof -
      have wx: "ARENA_PADDING \<le> ?maxX" and hy: "ARENA_PADDING \<le> ?maxY" using w h by simp_all
      have inx: "ARENA_PADDING \<le> ARENA_PADDING + r * (?maxX - ARENA_PADDING) \<and>
          ARENA_PADDING + r * (?maxX - ARENA_PADDING) \<le> ?maxX" if "r \<in> set rs" for r
        using that rng wx by (intro scaled_in_range) auto
      have iny: "ARENA_PADDING \<le> ARENA_PADDING + r * (?maxY - ARENA_PADDING) \<and>
          ARENA_PADDING + r * (?maxY - ARENA_PADDING) \<le> ?maxY" if "r \<in> set rs" for r
        using that rng hy by (intro scaled_in_range) auto
      show "\<forall>s \<in> set ss. inPadded ?b (hd (segments s))"
      proof
        fix s assume "s \<in> set ss"
        then obtain i where "i < length ss" "s = ss ! i" by (auto simp: in_set_conv_nth)
        with len each obtain x y ang r1 r2 where s: "s = newSnake i x y ang"
          and "r1 \<in> set rs" "x = ARENA_PADDING + r1 * (?maxX - ARENA_PADDING)"
          and "r2 \<in> set rs" "y = ARENA_PADDING + r2 * (?maxY - ARENA_PADDING)"
          by (metis add_0)
        with inx [of r1] iny [of r2] show "inPadded ?b (hd (segments s))"
          by (simp add: inPadded_def newSnake_fields)
      qed
      show "\<forall>p \<in> set ps. inPadded ?b p"
      proof
        fix p assume "p \<in> set ps"
        with pel sub obtain r1 r2 where
          "r1 \<in> set rs" "px p = ARENA_PADDING + r1 * (?maxX - ARENA_PADDING)"
          and "r2 \<in> set rs" "py p = ARENA_PADDING + r2 * (?maxY - ARENA_PADDING)"
          by blast
        with inx [of r1] iny [of r2] show "inPadded ?b p"
          by (simp add: inPadded_def)
      qed
    qed
    from len plen shape pel heads pells
    show "length (snakes st) = numBotsOf options \<and>
      length (pellets st) = numPelletsOf options \<and>
      bounds st = boundsOf options \<and>
      (\<forall>i < length (snakes st).
         (isPlayer (snakes st ! i) \<longleftrightarrow> i = 0) \<and>
         sid (snakes st ! i) = (if i = 0 then ''player'' else ''snake-'' @ showNat i) \<and>
         length (segments (snakes st ! i)) = INITIAL_LENGTH \<and>
         (\<forall>k < INITIAL_LENGTH. segments (snakes st ! i) ! k =
             \<lparr>px = px (hd (segments (snakes st ! i)))
                     - cos (angle (snakes st ! i)) * real k * SEGMENT_SPACING,
              py = py (hd (segments (snakes st ! i)))
                     - sin (angle (snakes st ! i)) * real k * SEGMENT_SPACING\<rparr>)) \<and>
      (\<forall>p \<in> set (pellets st). pvalue p = PELLET_VALUE) \<and>
      ((\<forall>r \<in> set rs. 0 \<le> r \<and> r < 1) \<and>
       2 * ARENA_PADDING \<le> width (boundsOf options) \<and>
       2 * ARENA_PADDING \<le> height (boundsOf options) \<longrightarrow>
         (\<forall>s \<in> set (snakes st). inPadded (bounds st) (hd (segments s))) \<and>
         (\<forall>p \<in> set (pellets st). inPadded (bounds st) p))"
      unfolding st by (simp (no_asm_simp))
  qed
next
  show "\<forall>runs ps.
      acceptedRuns ARENA_PADDING (width (boundsOf options) - ARENA_PADDING)
        ARENA_PADDING (height (boundsOf options) - ARENA_PADDING) {} runs \<and>
      length runs = numBotsOf options \<and> 2 * numPelletsOf options \<le> length ps \<and>
      rs = runDraws runs @ ps \<longrightarrow>
        (\<exists>st. createInitialState options rs = Some st \<and>
           map (\<lambda>s. hd (segments s)) (snakes st) =
             runHeads ARENA_PADDING (width (boundsOf options) - ARENA_PADDING)
               ARENA_PADDING (height (boundsOf options) - ARENA_PADDING) runs \<and>
           map angle (snakes st) = runHeadings runs)"
  proof (intro allI impI, elim conjE)
    fix runs ps
    assume rs: "rs = runDraws runs @ ps"
    assume "acceptedRuns ARENA_PADDING (width (boundsOf options) - ARENA_PADDING)
        ARENA_PADDING (height (boundsOf options) - ARENA_PADDING) {} runs"
      and "length runs = numBotsOf options" and "2 * numPelletsOf options \<le> length ps"
    then show "\<exists>st. createInitialState options rs = Some st \<and>
           map (\<lambda>s. hd (segments s)) (snakes st) =
             runHeads ARENA_PADDING (width (boundsOf options) - ARENA_PADDING)
               ARENA_PADDING (height (boundsOf options) - ARENA_PADDING) runs \<and>
           map angle (snakes st) = runHeadings runs"
      unfolding rs by (rule createInitialState_returns)
  qed
next
  show "(\<exists>st. createInitialState options rs = Some st) \<longrightarrow>
      (\<exists>runs ps.
         acceptedRuns ARENA_PADDING (width (boundsOf options) - ARENA_PADDING)
           ARENA_PADDING (height (boundsOf options) - ARENA_PADDING) {} runs \<and>
         length runs = numBotsOf options \<and> 2 * numPelletsOf options \<le> length ps \<and>
         rs = runDraws runs @ ps)"
    by (rule impI, erule exE, erule createInitialState_draws)
next
  show "optBounds options = None \<and> (\<forall>r \<in> set rs. 0 \<le> r \<and> r < 1) \<and>
    (\<exists>st. createInitialState options rs = Some st) \<longrightarrow> numBotsOf options \<le> 3600"
  proof (intro impI, elim conjE exE)
    fix st
    assume none: "optBounds options = None" and rng: "\<forall>r \<in> set rs. 0 \<le> r \<and> r < 1"
      and "createInitialState options rs = Some st"
    then obtain ss rs1 where
      "buildSnakes 0 (numBotsOf options) ARENA_PADDING (width (boundsOf options) - ARENA_PADDING)
         ARENA_PADDING (height (boundsOf options) - ARENA_PADDING) {} rs = Some (ss, rs1)"
      by (auto elim: createInitialState_Some)
    then have "buildSnakes 0 (numBotsOf options) 40 2960 40 2960 {} rs = Some (ss, rs1)"
      by (simp add: boundsOf_def none ARENA_PADDING_def)
    from buildSnakes_cells [OF this rng] show "numBotsOf options \<le> 3600" by simp
  qed
qed

text \<open>
  A call for two organisms and one pellet in which the first spawn point tried for the
  second organism, \<open>(40, 40)\<close>, lies in the player's grid cell and is rejected.
\<close>

theorem createInitialState_shape_witness:
  "createInitialState pairOptions [0, 0, 1 / 2, 0, 0, 1 / 2, 1 / 2, 1 / 2, 1 / 4, 1 / 4] = Some pairState \<and>
   length (snakes pairState) = 2 \<and>
   length (pellets pairState) = 1 \<and>
   isPlayer (snakes pairState ! 0) \<and>
   \<not> isPlayer (snakes pairState ! 1) \<and>
   sid (snakes pairState ! 0) = ''player'' \<and>
   sid (snakes pairState ! 1) = ''snake-1'' \<and>
   length (segments (snakes pairState ! 1)) = 15 \<and>
   segments (snakes pairState ! 1) ! 14 = \<lparr>px = 1388, py = 1500\<rparr> \<and>
   inPadded (bounds pairState) (hd (segments (snakes pairState ! 1))) \<and>
   inPadded (bounds pairState) (hd (pellets pairState)) \<and>
   acceptedRuns ARENA_PADDING (width (boundsOf pairOptions) - ARENA_PADDING)
     ARENA_PADDING (height (boundsOf pairOptions) - ARENA_PADDING) {} [([], 0, 0, 1 / 2), ([(0, 0)], 1 / 2, 1 / 2, 1 / 2)] \<and>
   length ([([], 0, 0, 1 / 2), ([(0, 0)], 1 / 2, 1 / 2, 1 / 2)] :: spawnRun list) = numBotsOf pairOptions \<and>
   2 * numPelletsOf pairOptions \<le> length [1 / 4 :: real, 1 / 4] \<and>
   [0, 0, 1 / 2, 0, 0, 1 / 2, 1 / 2, 1 / 2, 1 / 4, 1 / 4] = runDraws [([], 0, 0, 1 / 2), ([(0, 0)], 1 / 2, 1 / 2, 1 / 2)] @ [1 / 4, 1 / 4] \<and>
   spotKey 40 40 = (0, 0) \<and> spotKey 1500 1500 = (30, 30) \<and>
   (\<exists>st. createInitialState pairOptions [0, 0, 1 / 2, 0, 0, 1 / 2, 1 / 2, 1 / 2, 1 / 4, 1 / 4] = Some st \<and>
      map (\<lambda>s. hd (segments s)) (snakes st) =
        runHeads ARENA_PADDING (width (boundsOf pairOptions) - ARENA_PADDING)
          ARENA_PADDING (height (boundsOf pairOptions) - ARENA_PADDING) [([], 0, 0, 1 / 2), ([(0, 0)], 1 / 2, 1 / 2, 1 / 2)] \<and>
      map angle (snakes st) = runHeadings [([], 0, 0, 1 / 2), ([(0, 0)], 1 / 2, 1 / 2, 1 / 2)]) \<and>
   map (\<lambda>s. hd (segments s)) (snakes pairState) = [\<lparr>px = 40, py = 40\<rparr>, \<lparr>px = 1500, py = 1500\<rparr>] \<and>
   map angle (snakes pairState) = [0, 0] \<and>
   (\<exists>runs ps.
      acceptedRuns ARENA_PADDING (width (boundsOf pairOptions) - ARENA_PADDING)
        ARENA_PADDING (height (boundsOf pairOptions) - ARENA_PADDING) {} runs \<and>
      length runs = numBotsOf pairOptions \<and> 2 * numPelletsOf pairOptions \<le> length ps \<and>
      [0, 0, 1 / 2, 0, 0, 1 / 2, 1 / 2, 1 / 2, 1 / 4, 1 / 4] = runDraws runs @ ps) \<and>
   optBounds pairOptions = None \<and>
   list_all (\<lambda>r. 0 \<le> r \<and> r < 1) ([0, 0, 1 / 2, 0, 0, 1 / 2, 1 / 2, 1 / 2, 1 / 4, 1 / 4] :: real list) \<and>
   numBotsOf pairOptions \<le> 3600"
proof -
  let ?rs = "[0, 0, 1 / 2, 0, 0, 1 / 2, 1 / 2, 1 / 2, 1 / 4, 1 / 4] :: real list"
  let ?runs = "[([], 0, 0, 1 / 2), ([(0, 0)], 1 / 2, 1 / 2, 1 / 2)] :: spawnRun list"
  note inst = createInitialState_shape [of pairOptions ?rs]
  note shape = inst [THEN conjunct1, rule_format, OF pair_create_retry]
  have o: "numBotsOf pairOptions = 2" "numPelletsOf pairOptions = 1"
    "boundsOf pairOptions = \<lparr>width = 3000, height = 3000\<rparr>"
    by (simp_all add: numBotsOf_def numPelletsOf_def boundsOf_def pairOptions_def)
  have len: "length (snakes pairState) = 2" "length (pellets pairState) = 1"
    using shape by (simp_all add: o)
  from shape have each: "\<forall>i < length (snakes pairState).
         (isPlayer (snakes pairState ! i) \<longleftrightarrow> i = 0) \<and>
         sid (snakes pairState ! i) = (if i = 0 then ''player'' else ''snake-'' @ showNat i) \<and>
         length (segments (snakes pairState ! i)) = INITIAL_LENGTH \<and>
         (\<forall>k < INITIAL_LENGTH. segments (snakes pairState ! i) ! k =
             \<lparr>px = px (hd (segments (snakes pairState ! i)))
                     - cos (angle (snakes pairState ! i)) * real k * SEGMENT_SPACING,
              py = py (hd (segments (snakes pairState ! i)))
                     - sin (angle (snakes pairState ! i)) * real k * SEGMENT_SPACING\<rparr>)"
    by (elim conjE)
  have s1: "showNat (Suc 0) = ''1''" by (simp add: showNat.simps)
  from each [rule_format, of 0] len have p0: "isPlayer (snakes pairState ! 0)"
    "sid (snakes pairState ! 0) = ''player''"
    by simp_all
  from each [rule_format, of 1] len have p1: "\<not> isPlayer (snakes pairState ! 1)"
    "sid (snakes pairState ! 1) = ''snake-1''" "length (segments (snakes pairState ! 1)) = 15"
    by (simp_all add: s1 INITIAL_LENGTH_def)
  have hs: "map (\<lambda>s. hd (segments s)) (snakes pairState) = [\<lparr>px = 40, py = 40\<rparr>, \<lparr>px = 1500, py = 1500\<rparr>]"
    "map angle (snakes pairState) = [0, 0]"
    by (simp_all add: pairState_def newSnake_fields)
  from each [rule_format, of 1] len
  have "segments (snakes pairState ! 1) ! 14 =
      \<lparr>px = px (hd (segments (snakes pairState ! 1))) - cos (angle (snakes pairState ! 1)) * real (14 :: nat) * SEGMENT_SPACING,
       py = py (hd (segments (snakes pairState ! 1))) - sin (angle (snakes pairState ! 1)) * real (14 :: nat) * SEGMENT_SPACING\<rparr>"
    by (simp add: INITIAL_LENGTH_def)
  then have tail: "segments (snakes pairState ! 1) ! 14 = \<lparr>px = 1388, py = 1500\<rparr>"
    by (simp add: pairState_def newSnake_fields SEGMENT_SPACING_def)
  have rng: "\<forall>r \<in> set ?rs. 0 \<le> r \<and> r < 1" by simp
  have rng': "list_all (\<lambda>r. 0 \<le> r \<and> r < 1) ?rs" by simp
  have wide: "2 * ARENA_PADDING \<le> width (boundsOf pairOptions)"
    "2 * ARENA_PADDING \<le> height (boundsOf pairOptions)"
    by (simp_all add: o ARENA_PADDING_def)
  from shape rng wide have pad: "(\<forall>s \<in> set (snakes pairState). inPadded (bounds pairState) (hd (segments s))) \<and>
         (\<forall>p \<in> set (pellets pairState). inPadded (bounds pairState) p)"
    by (elim conjE impE) (intro conjI, assumption+, simp)
  have "snakes pairState ! 1 \<in> set (snakes pairState)" "hd (pellets pairState) \<in> set (pellets pairState)"
    by (simp_all add: pairState_def)
  with pad have inp: "inPadded (bounds pairState) (hd (segments (snakes pairState ! 1)))"
    "inPadded (bounds pairState) (hd (pellets pairState))"
    by blast+
  have keys: "spotKey 40 40 = (0, 0)" "spotKey 1500 1500 = (30, 30)"
    by (simp_all add: spotKey_def)
  have acc: "acceptedRuns ARENA_PADDING (width (boundsOf pairOptions) - ARENA_PADDING)
        ARENA_PADDING (height (boundsOf pairOptions) - ARENA_PADDING) {} ?runs"
    by (simp add: o ARENA_PADDING_def Let_def keys)
  have l: "length ?runs = numBotsOf pairOptions"
    "2 * numPelletsOf pairOptions \<le> length [1 / 4 :: real, 1 / 4]"
    by (simp_all add: o)
  have cat: "?rs = runDraws ?runs @ [1 / 4, 1 / 4]"
    by simp
  from acc l cat have pre: "acceptedRuns ARENA_PADDING (width (boundsOf pairOptions) - ARENA_PADDING)
        ARENA_PADDING (height (boundsOf pairOptions) - ARENA_PADDING) {} ?runs \<and>
      length ?runs = numBotsOf pairOptions \<and>
      2 * numPelletsOf pairOptions \<le> length [1 / 4 :: real, 1 / 4] \<and>
      ?rs = runDraws ?runs @ [1 / 4, 1 / 4]"
    by (intro conjI)
  have ret: "\<exists>st. createInitialState pairOptions ?rs = Some st \<and>
      map (\<lambda>s. hd (segments s)) (snakes st) =
        runHeads ARENA_PADDING (width (boundsOf pairOptions) - ARENA_PADDING)
          ARENA_PADDING (height (boundsOf pairOptions) - ARENA_PADDING) ?runs \<and>
      map angle (snakes st) = runHeadings ?runs"
    by (rule inst [THEN conjunct2, THEN conjunct1, THEN spec, THEN spec, THEN mp, OF pre])
  from pair_create_retry have some: "\<exists>st. createInitialState pairOptions ?rs = Some st" by (rule exI)
  have conv: "\<exists>runs ps.
      acceptedRuns ARENA_PADDING (width (boundsOf pairOptions) - ARENA_PADDING)
        ARENA_PADDING (height (boundsOf pairOptions) - ARENA_PADDING) {} runs \<and>
      length runs = numBotsOf pairOptions \<and> 2 * numPelletsOf pairOptions \<le> length ps \<and>
      ?rs = runDraws runs @ ps"
    by (rule inst [THEN conjunct2, THEN conjunct2, THEN conjunct1, THEN mp, OF some])
  have none: "optBounds pairOptions = None" by (simp add: pairOptions_def)
  from none rng some have "optBounds pairOptions = None \<and> (\<forall>r \<in> set ?rs. 0 \<le> r \<and> r < 1) \<and>
      (\<exists>st. createInitialState pairOptions ?rs = Some st)"
    by (intro conjI)
  then have bound: "numBotsOf pairOptions \<le> 3600"
    by (rule inst [THEN conjunct2, THEN conjunct2, THEN conjunct2, THEN mp])
  from pair_create_retry len p0 p1 tail inp acc l cat keys ret hs conv none rng' bound
  show ?thesis by (intro conjI)
qed

section \<open>Termination of the normalization loop\<close>

text \<open>
  C9. In double arithmetic the first loop of \<open>normalizeAngle\<close> does not end on every finite
  input. The doubles just below \<open>2^60\<close> are 128 apart, so \<open>2^60 - 2 * Math.PI\<close> rounds
  back to \<open>2^60\<close>, and \<open>while (a > Math.PI) a -= 2 * Math.PI\<close> leaves \<open>a\<close> unchanged for
  ever. With the finite target heading \<open>2^60\<close> for the player of \<open>exState\<close> (heading 0),
  the first statement of \<open>moveSnake\<close> never returns, so neither does \<open>tick\<close>. (Over the
  reals both loops end, \<open>tick\<close> returns for every state whose organisms have a segment
  and a target that is a number, and the follow step divides only by a distance above
  \<open>1e-6\<close>: see
  \<open>tick_returns_over_reals\<close> and \<open>followStep_divides_only_far\<close>.)
\<close>

theorem normalization_loop_stuck:
  "angle exSnake = 0 \<and>
   toDouble (2 ^ 60 - angle exSnake) = 2 ^ 60 \<and>
   MATH_PI < 2 ^ 60 \<and>
   toDouble (2 ^ 60 - 2 * MATH_PI) = 2 ^ 60 \<and>
   normalizeAngle_down_fl (2 ^ 60) = None \<and>
   headingDiff_fl exSnake (2 ^ 60) = None"
proof -
  have a: "angle exSnake = 0" by (simp add: exSnake_def)
  have t: "toDouble (2 ^ 60 - angle exSnake) = 2 ^ 60"
    unfolding a by (simp only: diff_zero toDouble_power_60)
  have big: "MATH_PI < 2 ^ 60" by (simp add: MATH_PI_def)
  have "headingDiff_fl exSnake (2 ^ 60) = None"
    unfolding headingDiff_fl_def t normalizeAngle_fl_def normalizeAngle_down_fl_stuck
    by (simp only: option.case)
  with a t big toDouble_absorbs normalizeAngle_down_fl_stuck show ?thesis by (intro conjI)
qed

section \<open>The death drop\<close>

text \<open>
  C10. The pellets of the returned state are the pellets left by the consumption pass,
  then, for every id of \<open>deadIds\<close> in order, the drop of the organism of that id as the
  input state has it (its segments before this tick's move and growth), then the spawned
  pellet when the timer expired. Every id of \<open>deadIds\<close> is the id of an organism of the
  input state, and the drop is \<open>sampledDrop\<close> of its segments:
  \<open>max(1, floor(DEATH_PELLET_FRACTION * n))\<close> pellets of value \<open>PELLET_VALUE\<close> at the
  indices \<open>min(j * step, n - 1)\<close>, \<open>step = max(1, floor(n / count))\<close>.
\<close>

theorem death_drop_from_start_of_tick:
  assumes "tick st dt ta rnd = Inr r"
  shows "\<exists>moved grown ps.
      moveAll dt ta (snakes st) = Inr moved \<and>
      consumeAll moved (pellets st) = (grown, ps) \<and>
      pellets (state r) =
        ps @ concat (map (\<lambda>i. case find (\<lambda>s. sid s = i) (snakes st) of
                                  None \<Rightarrow> [] | Some d \<Rightarrow> sampledDrop (segments d))
                      (deadIds r))
           @ (if nextPelletSpawn st - dt \<le> 0 then [spawnPellet st rnd] else []) \<and>
      (\<forall>i \<in> set (deadIds r). \<exists>d \<in> set (snakes st).
          find (\<lambda>s. sid s = i) (snakes st) = Some d \<and> sid d = i \<and> segments d \<noteq> [] \<and>
          length (sampledDrop (segments d))
            = max 1 (nat \<lfloor>DEATH_PELLET_FRACTION * real (length (segments d))\<rfloor>) \<and>
          (\<forall>p \<in> set (sampledDrop (segments d)). pvalue p = PELLET_VALUE \<and>
              (\<exists>seg \<in> set (segments d). px p = px seg \<and> py p = py seg)))"
proof -
  from assms obtain moved grown ps where mv: "moveAll dt ta (snakes st) = Inr moved"
    and eat: "consumeAll moved (pellets st) = (grown, ps)"
    and dead: "deadIds r = collectDead (bounds st) grown grown []"
    and pel: "pellets (state r) = dropDead (snakes st) (deadIds r) ps @
           (if nextPelletSpawn st - dt \<le> 0 then [spawnPellet st rnd] else [])"
    by (rule tick_Inr)
  have known: "\<exists>d \<in> set (snakes st).
      find (\<lambda>s. sid s = i) (snakes st) = Some d \<and> sid d = i \<and> segments d \<noteq> []"
    if "i \<in> set (deadIds r)" for i
    using that unfolding dead by (rule dead_ids_known [OF mv eat])
  have same: "(case find (\<lambda>s. sid s = i) (snakes st) of None \<Rightarrow> [] | Some d \<Rightarrow> deathPellets d)
      = (case find (\<lambda>s. sid s = i) (snakes st) of None \<Rightarrow> [] | Some d \<Rightarrow> sampledDrop (segments d))"
    if "i \<in> set (deadIds r)" for i
    using known [OF that] by (auto simp: deathPellets_sampled)
  have "map (\<lambda>i. case find (\<lambda>s. sid s = i) (snakes st) of None \<Rightarrow> [] | Some d \<Rightarrow> deathPellets d)
          (deadIds r)
      = map (\<lambda>i. case find (\<lambda>s. sid s = i) (snakes st) of None \<Rightarrow> [] | Some d \<Rightarrow> sampledDrop (segments d))
          (deadIds r)"
    by (rule map_cong [OF refl same])
  then have drop: "pellets (state r) =
        ps @ concat (map (\<lambda>i. case find (\<lambda>s. sid s = i) (snakes st) of
                                  None \<Rightarrow> [] | Some d \<Rightarrow> sampledDrop (segments d))
                      (deadIds r))
           @ (if nextPelletSpawn st - dt \<le> 0 then [spawnPellet st rnd] else [])"
    by (simp only: pel dropDead_eq append_assoc)
  have shape: "length (sampledDrop segs) = max 1 (nat \<lfloor>DEATH_PELLET_FRACTION * real (length segs)\<rfloor>) \<and>
          (\<forall>p \<in> set (sampledDrop segs). pvalue p = PELLET_VALUE \<and>
              (\<exists>seg \<in> set segs. px p = px seg \<and> py p = py seg))"
    if ne: "segs \<noteq> []" for segs
  proof -
    have "min (j * step) (length segs - 1) < length segs" for j step
      using ne by (simp add: min_def) (metis One_nat_def Suc_pred length_greater_0_conv less_Suc_eq_le)
    then have "segs ! min (j * step) (length segs - 1) \<in> set segs" for j step
      by (rule nth_mem)
    then show ?thesis
      by (auto simp: sampledDrop_def Let_def)
  qed
  have all: "\<forall>i \<in> set (deadIds r). \<exists>d \<in> set (snakes st).
          find (\<lambda>s. sid s = i) (snakes st) = Some d \<and> sid d = i \<and> segments d \<noteq> [] \<and>
          length (sampledDrop (segments d))
            = max 1 (nat \<lfloor>DEATH_PELLET_FRACTION * real (length (segments d))\<rfloor>) \<and>
          (\<forall>p \<in> set (sampledDrop (segments d)). pvalue p = PELLET_VALUE \<and>
              (\<exists>seg \<in> set (segments d). px p = px seg \<and> py p = py seg))"
  proof
    fix i assume "i \<in> set (deadIds r)"
    from known [OF this] obtain d where d: "d \<in> set (snakes st)"
      "find (\<lambda>s. sid s = i) (snakes st) = Some d" "sid d = i" "segments d \<noteq> []"
      by blast
    from shape [OF d(4)] d show "\<exists>d \<in> set (snakes st).
          find (\<lambda>s. sid s = i) (snakes st) = Some d \<and> sid d = i \<and> segments d \<noteq> [] \<and>
          length (sampledDrop (segments d))
            = max 1 (nat \<lfloor>DEATH_PELLET_FRACTION * real (length (segments d))\<rfloor>) \<and>
          (\<forall>p \<in> set (sampledDrop (segments d)). pvalue p = PELLET_VALUE \<and>
              (\<exists>seg \<in> set (segments d). px p = px seg \<and> py p = py seg))"
      by (intro bexI [of _ d] conjI) (assumption | erule conjunct1 | erule conjunct2)+
  qed
  show ?thesis
    apply (rule exI [of _ moved], rule exI [of _ grown], rule exI [of _ ps])
    apply (rule conjI [OF mv], rule conjI [OF eat], rule conjI [OF drop all])
    done
qed

theorem death_drop_from_start_of_tick_witness:
  "tick duelState (1 / 60) Map.empty (0, 0) = Inr duelResult \<and>
   segments (hd (snakes duelState)) ! 0 = \<lparr>px = 100, py = 100\<rparr> \<and>
   segments (hd (snakes duelState)) ! 2 = \<lparr>px = 84, py = 100\<rparr> \<and>
   segments (hd duelMoved) ! 0 = \<lparr>px = 102, py = 100\<rparr> \<and>
   segments (hd duelMoved) ! 2 = \<lparr>px = 86, py = 100\<rparr> \<and>
   pellets (state duelResult) =
     [\<lparr>px = 100, py = 100, pvalue = 1\<rparr>, \<lparr>px = 84, py = 100, pvalue = 1\<rparr>,
      \<lparr>px = 110, py = 100, pvalue = 1\<rparr>] \<and>
   (\<exists>moved grown ps.
      moveAll (1 / 60) Map.empty (snakes duelState) = Inr moved \<and>
      consumeAll moved (pellets duelState) = (grown, ps) \<and>
      pellets (state duelResult) =
        ps @ concat (map (\<lambda>i. case find (\<lambda>s. sid s = i) (snakes duelState) of
                                  None \<Rightarrow> [] | Some d \<Rightarrow> sampledDrop (segments d))
                      (deadIds duelResult))
           @ (if nextPelletSpawn duelState - 1 / 60 \<le> 0 then [spawnPellet duelState (0, 0)] else []) \<and>
      (\<forall>i \<in> set (deadIds duelResult). \<exists>d \<in> set (snakes duelState).
          find (\<lambda>s. sid s = i) (snakes duelState) = Some d \<and> sid d = i \<and> segments d \<noteq> [] \<and>
          length (sampledDrop (segments d))
            = max 1 (nat \<lfloor>DEATH_PELLET_FRACTION * real (length (segments d))\<rfloor>) \<and>
          (\<forall>p \<in> set (sampledDrop (segments d)). pvalue p = PELLET_VALUE \<and>
              (\<exists>seg \<in> set (segments d). px p = px seg \<and> py p = py seg))))"
proof -
  have "segments (hd (snakes duelState)) ! 0 = \<lparr>px = 100, py = 100\<rparr>"
    "segments (hd (snakes duelState)) ! 2 = \<lparr>px = 84, py = 100\<rparr>"
    "segments (hd duelMoved) ! 0 = \<lparr>px = 102, py = 100\<rparr>"
    "segments (hd duelMoved) ! 2 = \<lparr>px = 86, py = 100\<rparr>"
    "pellets (state duelResult) =
     [\<lparr>px = 100, py = 100, pvalue = 1\<rparr>, \<lparr>px = 84, py = 100, pvalue = 1\<rparr>,
      \<lparr>px = 110, py = 100, pvalue = 1\<rparr>]"
    by (simp_all add: duelState_def duelA_def duelMoved_def duelResult_def)
  with duel_tick death_drop_from_start_of_tick [OF duel_tick] show ?thesis by (intro conjI)
qed

end
